theory Spec2Isabelle
  imports Complex_Main "HOL-Library.Sublist"
begin

section \<open>Transport: \<open>http_client.cpp\<close>\<close>

text \<open>
  C++ \<open>int\<close> values are modelled as \<open>int\<close>. The two places where the source leaves the
  32-bit range are written out: the product \<open>seconds * 1000\<close> wraps around (signed
  overflow is undefined in C++; the compiled code wraps), and the cast of the backoff
  product to \<open>int\<close> gives \<open>INT_MIN\<close> when the truncated value does not fit (the
  conversion is undefined in C++ then; the x86-64 conversion instruction returns
  \<open>INT_MIN\<close>). The \<open>double\<close> field \<open>backoff_multiplier\<close> is modelled as a rational number,
  and \<open>std::pow\<close> and the product are computed exactly. The exact value is the value of
  the double computation when the multiplier is a non-negative integer,
  \<open>initial_backoff_ms\<close> is at least 1 and the product is at most \<open>2^31 - 1\<close>: then the
  power and the product are integers below \<open>2^31\<close>, which a double holds exactly (this
  covers the default configuration \<open>100 * 2.0^attempt\<close> up to attempt 24). The theorems
  about the backoff value are stated under these conditions only.
\<close>

record HttpResponse =
  status_code :: int
  body :: string
  content_type :: string
  retry_after :: string
  error :: string
  success :: bool

record RetryConfig =
  max_retries :: int
  initial_backoff_ms :: int
  backoff_multiplier :: rat
  max_backoff_ms :: int

text \<open>The default member initialisers of the two structs.\<close>

definition HttpResponse_default :: HttpResponse where
  "HttpResponse_default =
     \<lparr>status_code = 0, body = [], content_type = [], retry_after = [], error = [],
      success = False\<rparr>"

definition RetryConfig_default :: RetryConfig where
  "RetryConfig_default =
     \<lparr>max_retries = 3, initial_backoff_ms = 100, backoff_multiplier = 2,
      max_backoff_ms = 10000\<rparr>"

definition IsRetryable :: "int \<Rightarrow> bool" where
  "IsRetryable sc =
     (if sc \<le> 0 then True
      else if sc = 429 then True
      else if sc \<ge> 500 \<and> sc \<le> 504 then True
      else False)"

subsection \<open>\<open>std::stoi\<close> and \<open>ParseRetryAfter\<close>\<close>

definition is_space :: "char \<Rightarrow> bool" where
  "is_space c = (c = CHR '' '' \<or> (9 \<le> (of_char c :: nat) \<and> (of_char c :: nat) \<le> 13))"

definition is_digit :: "char \<Rightarrow> bool" where
  "is_digit c = (48 \<le> (of_char c :: nat) \<and> (of_char c :: nat) \<le> 57)"

definition digit_val :: "char \<Rightarrow> int" where
  "digit_val c = int (of_char c) - 48"

definition digits_val :: "string \<Rightarrow> int" where
  "digits_val ds = foldl (\<lambda>acc c. acc * 10 + digit_val c) 0 ds"

definition INT_MIN :: int where "INT_MIN = - 2147483648"
definition INT_MAX :: int where "INT_MAX = 2147483647"

text \<open>
  \<open>std::stoi(s)\<close> with base 10: leading white space is skipped, an optional sign is read,
  then the longest run of decimal digits; trailing characters are ignored. \<open>None\<close> stands
  for the two exceptions (\<open>invalid_argument\<close> when there is no digit, \<open>out_of_range\<close>
  when the value does not fit an \<open>int\<close>).
\<close>

definition stoi :: "string \<Rightarrow> int option" where
  "stoi s =
     (let t = dropWhile is_space s;
          (neg, u) = (case t of
                        c # r \<Rightarrow> if c = CHR ''-'' then (True, r)
                                 else if c = CHR ''+'' then (False, r)
                                 else (False, t)
                      | [] \<Rightarrow> (False, t));
          ds = takeWhile is_digit u
      in if ds = [] then None
         else let v = (if neg then - digits_val ds else digits_val ds)
              in if v < INT_MIN \<or> v > INT_MAX then None else Some v)"

definition int32_wrap :: "int \<Rightarrow> int" where
  "int32_wrap x = (x + 2147483648) mod 4294967296 - 2147483648"

definition ParseRetryAfter :: "string \<Rightarrow> int" where
  "ParseRetryAfter ra =
     (if ra = [] then 0
      else case stoi ra of
             Some seconds \<Rightarrow> int32_wrap (seconds * 1000)
           | None \<Rightarrow> 0)"

subsection \<open>\<open>ExecuteHttpGet\<close>\<close>

text \<open>
  The network call itself is outside the program. What one call of \<open>ExecuteHttpGet\<close>
  observes is one of: the \<open>http_request\<close> extension cannot be loaded, the query fails
  with a message, the result has no row, or a row of four nullable columns.
\<close>

datatype http_outcome =
    LoadFailed
  | QueryError string
  | NoChunk
  | Row "int option" "string option" "string option" "string option"

fun ExecuteHttpGet :: "http_outcome \<Rightarrow> HttpResponse" where
  "ExecuteHttpGet LoadFailed =
     HttpResponse_default
       \<lparr>error := ''Failed to load http_request extension. Install it with: INSTALL http_request FROM community''\<rparr>"
| "ExecuteHttpGet (QueryError msg) = HttpResponse_default\<lparr>error := msg, status_code := 0\<rparr>"
| "ExecuteHttpGet NoChunk =
     HttpResponse_default\<lparr>error := ''No response from HTTP request'', status_code := 0\<rparr>"
| "ExecuteHttpGet (Row status_val body_val ct_val ra_val) =
     (let sc = (case status_val of None \<Rightarrow> 0 | Some v \<Rightarrow> v)
      in HttpResponse_default
           \<lparr>status_code := sc,
            body := (case body_val of None \<Rightarrow> [] | Some b \<Rightarrow> b),
            content_type := (case ct_val of None \<Rightarrow> [] | Some c \<Rightarrow> c),
            retry_after := (case ra_val of None \<Rightarrow> [] | Some r \<Rightarrow> r),
            success := (sc \<ge> 200 \<and> sc < 300)\<rparr>)"

subsection \<open>\<open>HttpClient::Fetch\<close>\<close>

definition trunc_to_int :: "rat \<Rightarrow> int" where
  "trunc_to_int x = (if x \<ge> 0 then \<lfloor>x\<rfloor> else \<lceil>x\<rceil>)"

text \<open>
  \<open>static_cast<int>(config.initial_backoff_ms * std::pow(config.backoff_multiplier, attempt))\<close>:
  the cast truncates towards zero.
\<close>

definition double_to_int :: "rat \<Rightarrow> int" where
  "double_to_int x =
     (let t = trunc_to_int x in if INT_MIN \<le> t \<and> t \<le> INT_MAX then t else INT_MIN)"

definition exp_backoff :: "RetryConfig \<Rightarrow> int \<Rightarrow> int" where
  "exp_backoff config attempt =
     double_to_int (of_int (initial_backoff_ms config) * backoff_multiplier config ^ nat attempt)"

text \<open>The wait computed after a retryable failure of attempt \<open>attempt\<close> (the source's \<open>wait_ms\<close>).\<close>

definition wait_ms :: "RetryConfig \<Rightarrow> int \<Rightarrow> HttpResponse \<Rightarrow> int" where
  "wait_ms config attempt response =
     (let w = (if status_code response = 429 \<and> retry_after response \<noteq> [] then
                 (let p = ParseRetryAfter (retry_after response)
                  in if p \<le> 0 then exp_backoff config attempt else p)
               else exp_backoff config attempt)
      in min w (max_backoff_ms config))"

text \<open>
  The retry loop. \<open>net k\<close> is what the \<open>k\<close>-th call of \<open>ExecuteHttpGet\<close> (counted from 0)
  observes; the second component of the result is the sequence of sleeps performed.
\<close>

function Fetch_loop ::
  "(nat \<Rightarrow> http_outcome) \<Rightarrow> string \<Rightarrow> RetryConfig \<Rightarrow> int \<Rightarrow> int list \<Rightarrow> HttpResponse \<times> int list"
where
  "Fetch_loop net url config attempt sleeps =
     (if attempt \<le> max_retries config then
        (let response = ExecuteHttpGet (net (nat attempt)) in
         if success response then (response, sleeps)
         else if \<not> IsRetryable (status_code response) then (response, sleeps)
         else if attempt \<ge> max_retries config then
           (response\<lparr>error := ''Max retries exceeded for URL: '' @ url\<rparr>, sleeps)
         else Fetch_loop net url config (attempt + 1)
                (sleeps @ [wait_ms config attempt response]))
      else (HttpResponse_default\<lparr>error := ''Unexpected error in HTTP fetch''\<rparr>, sleeps))"
  by pat_completeness auto
termination
  by (relation "measure (\<lambda>(net, url, config, attempt, sleeps). nat (max_retries config + 1 - attempt))")
     auto

declare Fetch_loop.simps [simp del]

definition Fetch :: "(nat \<Rightarrow> http_outcome) \<Rightarrow> string \<Rightarrow> RetryConfig \<Rightarrow> HttpResponse \<times> int list" where
  "Fetch net url config = Fetch_loop net url config 0 []"


section \<open>Search table function: \<open>google_search_function.cpp\<close>\<close>

subsection \<open>String primitives\<close>

text \<open>
  \<open>std::string::find\<close>: the index of the first occurrence of the pattern at or after
  \<open>pos\<close>, \<open>None\<close> for \<open>npos\<close>.
\<close>

primrec find_first :: "string \<Rightarrow> string \<Rightarrow> nat option" where
  "find_first pat [] = (if pat = [] then Some 0 else None)"
| "find_first pat (c # cs) =
     (if prefix pat (c # cs) then Some 0 else map_option Suc (find_first pat cs))"

definition str_find :: "string \<Rightarrow> string \<Rightarrow> nat \<Rightarrow> nat option" where
  "str_find s pat pos =
     (if pos > length s then None
      else map_option (\<lambda>i. i + pos) (find_first pat (drop pos s)))"

text \<open>\<open>std::string::substr(pos, n)\<close>; \<open>None\<close> is the \<open>out_of_range\<close> exception.\<close>

definition substr :: "string \<Rightarrow> nat \<Rightarrow> nat \<Rightarrow> string option" where
  "substr s pos n = (if pos > length s then None else Some (take n (drop pos s)))"

definition is_alnum :: "char \<Rightarrow> bool" where
  "is_alnum c =
     (let n = (of_char c :: nat)
      in (48 \<le> n \<and> n \<le> 57) \<or> (65 \<le> n \<and> n \<le> 90) \<or> (97 \<le> n \<and> n \<le> 122))"

definition hex_upper :: "nat \<Rightarrow> char" where
  "hex_upper d = ''0123456789ABCDEF'' ! (d mod 16)"

definition UrlEncode :: "string \<Rightarrow> string" where
  "UrlEncode v =
     concat (map (\<lambda>c. if is_alnum c \<or> c = CHR ''-'' \<or> c = CHR ''_'' \<or> c = CHR ''.'' \<or> c = CHR ''~''
                       then [c]
                       else [CHR ''%'', hex_upper (of_char c div 16), hex_upper (of_char c mod 16)]) v)"

fun nat_to_string :: "nat \<Rightarrow> string" where
  "nat_to_string n =
     (if n < 10 then [char_of (48 + n)]
      else nat_to_string (n div 10) @ [char_of (48 + n mod 10)])"

text \<open>\<open>std::to_string(int)\<close>\<close>

definition to_string :: "int \<Rightarrow> string" where
  "to_string i = (if i < 0 then CHR ''-'' # nat_to_string (nat (- i)) else nat_to_string (nat i))"

text \<open>Integer division of C++, which truncates towards zero; also the cast of a quotient of doubles to \<open>int\<close>.\<close>

definition div_trunc :: "int \<Rightarrow> int \<Rightarrow> int" where
  "div_trunc a b = sgn a * sgn b * (\<bar>a\<bar> div \<bar>b\<bar>)"

subsection \<open>Data\<close>

record GoogleSearchResult =
  title :: string
  link :: string
  snippet :: string
  display_link :: string
  formatted_url :: string
  html_formatted_url :: string
  html_title :: string
  html_snippet :: string
  mime :: string
  file_format :: string
  pagemap :: string
  site :: string
  date :: string

record GoogleSearchFilters =
  exact_terms :: string
  exclude_terms :: string
  or_terms :: string
  date_restrict :: string
  file_type :: string
  site_search :: string
  site_search_filter :: string
  gl :: string
  hl :: string
  language :: string
  safe :: string
  rights :: string
  sort :: string
  structured_data :: string

text \<open>
  \<open>idx_t\<close> is an unsigned 64-bit integer; the program only compares it and takes minima,
  so it is modelled as \<open>nat\<close>. \<open>timestamp_t\<close> is its \<open>value\<close>, microseconds since the epoch.
\<close>

record GoogleSearchBindData =
  query :: string
  api_key :: string
  cx :: string
  max_results :: nat
  column_names :: "string list"
  site_includes :: "string list"
  site_excludes :: "string list"
  date_from :: int
  date_to :: int
  has_date_filter :: bool
  filters :: GoogleSearchFilters

record SitePaginationState =
  next_start :: int
  exhausted :: bool

definition SitePaginationState_default :: SitePaginationState where
  "SitePaginationState_default = \<lparr>next_start = 1, exhausted = False\<rparr>"

text \<open>The single-query cursor of the global state is the field \<open>next_start\<close> of the source.\<close>

record GoogleSearchGlobalState =
  results :: "GoogleSearchResult list"
  current_idx :: nat
  site_states :: "SitePaginationState list"
  current_site_idx :: nat
  next_start_single :: int
  fetch_complete :: bool

definition GoogleSearchGlobalState_default :: GoogleSearchGlobalState where
  "GoogleSearchGlobalState_default =
     \<lparr>results = [], current_idx = 0, site_states = [], current_site_idx = 0,
      next_start_single = 1, fetch_complete = False\<rparr>"

datatype error =
    IOException string
  | InvalidInputException string
  | ConversionException
  | InternalException
  | OutOfRange

subsection \<open>\<open>ExtractDomain\<close>\<close>

definition ExtractDomain :: "string \<Rightarrow> string option" where
  "ExtractDomain url =
     (let protocol_end = str_find url ''://'' 0;
          start = (case protocol_end of Some p \<Rightarrow> p + 3 | None \<Rightarrow> 0);
          end' = (case str_find url ''/'' start of Some e \<Rightarrow> e | None \<Rightarrow> length url)
      in substr url start (end' - start))"

subsection \<open>\<open>TimestampToDateRestrict\<close> and \<open>BuildGoogleSearchUrl\<close>\<close>

text \<open>
  The function reads the system clock; \<open>now_time_t\<close> is that reading, in seconds since the
  epoch. \<open>difftime\<close> and the division by \<open>86400\<close> are done on doubles in the source; for
  operands below \<open>2^53\<close> the quotient truncated to \<open>int\<close> is the truncated integer quotient.
\<close>

definition diff_days_of :: "int \<Rightarrow> int \<Rightarrow> int" where
  "diff_days_of now_time_t from_ts =
     (let from_time_t = div_trunc from_ts 1000000;
          diff_seconds = now_time_t - from_time_t
      in div_trunc diff_seconds 86400)"

definition TimestampToDateRestrict :: "int \<Rightarrow> int \<Rightarrow> int \<Rightarrow> string" where
  "TimestampToDateRestrict now_time_t from_ts to_ts =
     (let diff_days = diff_days_of now_time_t from_ts
      in if diff_days \<le> 0 then []
         else if diff_days \<le> 7 then ''d'' @ to_string diff_days
         else if diff_days \<le> 31 then
           (let weeks = div_trunc (diff_days + 6) 7 in ''w'' @ to_string weeks)
         else if diff_days \<le> 365 then
           (let months = div_trunc (diff_days + 29) 30 in ''m'' @ to_string months)
         else
           (let years = div_trunc (diff_days + 364) 365 in ''y'' @ to_string years))"

text \<open>The \<open>(site:a OR site:b)\<close> loop over \<open>site_includes\<close>, from index \<open>i\<close> on.\<close>

fun or_sites :: "nat \<Rightarrow> string list \<Rightarrow> string" where
  "or_sites i [] = []"
| "or_sites i (s # ss) =
     (if i > 0 then '' OR '' else []) @ ''site:'' @ s @ or_sites (Suc i) ss"

definition full_query_of :: "GoogleSearchBindData \<Rightarrow> bool \<Rightarrow> string" where
  "full_query_of bind_data use_or_sites =
     (let q0 = query bind_data;
          q1 = (if structured_data (filters bind_data) \<noteq> []
                then structured_data (filters bind_data) @ '' '' @ q0 else q0);
          q2 = (if use_or_sites \<and> length (site_includes bind_data) > 1 then
                  q1 @ '' ('' @ or_sites 0 (site_includes bind_data) @ '')''
                else if use_or_sites \<and> length (site_includes bind_data) = 1 then
                  q1 @ '' site:'' @ hd (site_includes bind_data)
                else q1)
      in foldl (\<lambda>q s. q @ '' -site:'' @ s) q2 (site_excludes bind_data))"

definition opt_param :: "string \<Rightarrow> string \<Rightarrow> string" where
  "opt_param name v = (if v \<noteq> [] then name @ UrlEncode v else [])"

text \<open>The block \<open>Add date restriction if set\<close> of the URL builder.\<close>

definition date_restrict_param :: "int \<Rightarrow> GoogleSearchBindData \<Rightarrow> string" where
  "date_restrict_param now_time_t bind_data =
     (if has_date_filter bind_data \<and> date_from bind_data \<noteq> 0 then
        (let date_restrict =
               TimestampToDateRestrict now_time_t (date_from bind_data) (date_to bind_data)
         in if date_restrict \<noteq> [] then ''&dateRestrict='' @ UrlEncode date_restrict else [])
      else [])"

definition BuildGoogleSearchUrl ::
  "int \<Rightarrow> GoogleSearchBindData \<Rightarrow> int \<Rightarrow> string \<Rightarrow> bool \<Rightarrow> string" where
  "BuildGoogleSearchUrl now_time_t bind_data start site_filter use_or_sites =
     (let f = filters bind_data in
      ''https://www.googleapis.com/customsearch/v1''
      @ ''?key='' @ UrlEncode (api_key bind_data)
      @ ''&cx='' @ UrlEncode (cx bind_data)
      @ ''&q='' @ UrlEncode (full_query_of bind_data use_or_sites)
      @ ''&num=10''
      @ ''&start='' @ to_string start
      @ (if site_filter \<noteq> [] then ''&siteSearch='' @ UrlEncode site_filter @ ''&siteSearchFilter=i''
         else [])
      @ date_restrict_param now_time_t bind_data
      @ opt_param ''&exactTerms='' (exact_terms f)
      @ opt_param ''&excludeTerms='' (exclude_terms f)
      @ opt_param ''&orTerms='' (or_terms f)
      @ opt_param ''&fileType='' (file_type f)
      @ opt_param ''&gl='' (gl f)
      @ opt_param ''&hl='' (hl f)
      @ opt_param ''&lr='' (language f)
      @ opt_param ''&safe='' (safe f)
      @ opt_param ''&rights='' (rights f)
      @ opt_param ''&sort='' (sort f)
      @ ''&fields='' @ UrlEncode
          ''items(title,link,snippet,displayLink,formattedUrl,htmlFormattedUrl,htmlTitle,htmlSnippet,mime,fileFormat,pagemap),queries(nextPage)'')"


subsection \<open>\<open>ParseGoogleSearchResponse\<close>\<close>

text \<open>
  The JSON reader is a library. What the program reads from a parsed document is: whether
  the root has an \<open>error\<close> member (and its \<open>message\<close> when that is a string), the \<open>items\<close>
  array (when present and an array), and \<open>queries.nextPage[0].startIndex\<close> (when present
  and an integer, a 64-bit value). Of an item it reads its string-valued members and the
  serialised \<open>pagemap\<close> member.
\<close>

datatype json_item = Item (item_strings: "(string \<times> string) list") (item_pagemap: "string option")

record api_doc =
  doc_error :: "string option option"
  doc_items :: "json_item list option"
  doc_next_start :: "int option"

definition GetJsonString :: "json_item \<Rightarrow> string \<Rightarrow> string" where
  "GetJsonString obj key = (case map_of (item_strings obj) key of Some v \<Rightarrow> v | None \<Rightarrow> [])"

definition make_result :: "json_item \<Rightarrow> error + GoogleSearchResult" where
  "make_result item =
     (let l = GetJsonString item ''link'' in
      case ExtractDomain l of
        None \<Rightarrow> Inl OutOfRange
      | Some d \<Rightarrow>
          Inr \<lparr>title = GetJsonString item ''title'',
               link = l,
               snippet = GetJsonString item ''snippet'',
               display_link = GetJsonString item ''displayLink'',
               formatted_url = GetJsonString item ''formattedUrl'',
               html_formatted_url = GetJsonString item ''htmlFormattedUrl'',
               html_title = GetJsonString item ''htmlTitle'',
               html_snippet = GetJsonString item ''htmlSnippet'',
               mime = GetJsonString item ''mime'',
               file_format = GetJsonString item ''fileFormat'',
               pagemap = (case item_pagemap item of Some p \<Rightarrow> p | None \<Rightarrow> []),
               site = d,
               date = []\<rparr>)"

text \<open>The loop over the items of one page; it stops at the row cap.\<close>

fun push_items ::
  "json_item list \<Rightarrow> GoogleSearchResult list \<Rightarrow> nat \<Rightarrow> error + GoogleSearchResult list" where
  "push_items [] rs cap = Inr rs"
| "push_items (item # rest) rs cap =
     (if length rs \<ge> cap then Inr rs
      else case make_result item of
             Inl e \<Rightarrow> Inl e
           | Inr r \<Rightarrow> push_items rest (rs @ [r]) cap)"

definition ParseGoogleSearchResponse ::
  "(string \<Rightarrow> api_doc option) \<Rightarrow> string \<Rightarrow> GoogleSearchGlobalState \<Rightarrow> GoogleSearchBindData
     \<Rightarrow> error + (int \<times> GoogleSearchGlobalState)" where
  "ParseGoogleSearchResponse yyjson_read response_body state bind_data =
     (case yyjson_read response_body of
        None \<Rightarrow> Inl (IOException ''Failed to parse Google Search API response as JSON'')
      | Some doc \<Rightarrow>
          (case doc_error doc of
             Some message \<Rightarrow>
               Inl (InvalidInputException
                      (''Google Search API error: ''
                       @ (case message of Some m \<Rightarrow> m | None \<Rightarrow> ''Unknown error'')))
           | None \<Rightarrow>
               (case doc_items doc of
                  None \<Rightarrow> Inr (- 1, state)
                | Some items \<Rightarrow>
                    if items = [] then Inr (- 1, state)
                    else (case push_items items (results state) (max_results bind_data) of
                            Inl e \<Rightarrow> Inl e
                          | Inr rs \<Rightarrow>
                              Inr ((case doc_next_start doc of
                                      Some n \<Rightarrow> int32_wrap n
                                    | None \<Rightarrow> - 1),
                                   state\<lparr>results := rs\<rparr>)))))"

subsection \<open>\<open>FetchGoogleSearchResults\<close>\<close>

text \<open>
  The environment of one scan: the clock reading at the \<open>k\<close>-th request, what the
  attempts of the \<open>k\<close>-th request observe on the network, and the JSON reader.
\<close>

record scan_env =
  clock :: "nat \<Rightarrow> int"
  network :: "nat \<Rightarrow> string \<Rightarrow> nat \<Rightarrow> http_outcome"
  yyjson_read :: "string \<Rightarrow> api_doc option"

definition fetch_failure :: "HttpResponse \<Rightarrow> error" where
  "fetch_failure response =
     (if status_code response = 401 then InvalidInputException ''Google Search API: Invalid API key''
      else if status_code response = 403 then
        InvalidInputException ''Google Search API: Access denied or quota exceeded''
      else if status_code response = 400 then
        InvalidInputException (''Google Search API: Invalid request - '' @ error response)
      else IOException (''Google Search API error: '' @ error response @ '' (status ''
                        @ to_string (status_code response) @ '')''))"

definition use_per_site_queries :: "GoogleSearchBindData \<Rightarrow> bool" where
  "use_per_site_queries bind_data =
     (length (site_includes bind_data) > 1 \<and> max_results bind_data > 100)"

definition active_sites :: "SitePaginationState list \<Rightarrow> nat" where
  "active_sites ss = length (filter (\<lambda>s. \<not> exhausted s) ss)"

text \<open>
  The inner \<open>while\<close> that looks for the next site that is not exhausted. An index outside
  the vector is \<open>None\<close> (the vector's checked access throws).
\<close>

function next_active :: "SitePaginationState list \<Rightarrow> nat \<Rightarrow> nat \<Rightarrow> nat \<Rightarrow> nat option" where
  "next_active ss n idx attempts =
     (if idx \<ge> length ss then None
      else if exhausted (ss ! idx) \<and> attempts < n then
        next_active ss n ((idx + 1) mod n) (attempts + 1)
      else Some idx)"
  by pat_completeness auto
termination
  by (relation "measure (\<lambda>(ss, n, idx, attempts). n - attempts)") auto

declare next_active.simps [simp del]

text \<open>
  One request of either loop: build the URL for the cursor, fetch it with the default
  retry configuration, turn a failed response into the exception the source throws, and
  parse the page into the state.
\<close>

definition fetch_page ::
  "scan_env \<Rightarrow> GoogleSearchBindData \<Rightarrow> nat \<Rightarrow> int \<Rightarrow> string \<Rightarrow> bool \<Rightarrow> GoogleSearchGlobalState
     \<Rightarrow> error + (int \<times> GoogleSearchGlobalState)" where
  "fetch_page env bind_data k start site_filter use_or_sites state =
     (let url = BuildGoogleSearchUrl (clock env k) bind_data start site_filter use_or_sites;
          response = fst (Fetch (network env k url) url RetryConfig_default)
      in if \<not> success response then Inl (fetch_failure response)
         else ParseGoogleSearchResponse (yyjson_read env) (body response) state bind_data)"

text \<open>The update of a site's cursor after its page was parsed.\<close>

definition advance_site :: "SitePaginationState \<Rightarrow> int \<Rightarrow> SitePaginationState" where
  "advance_site site_state nxt =
     (if nxt < 0 \<or> next_start site_state \<ge> 100 then site_state\<lparr>exhausted := True\<rparr>
      else site_state\<lparr>next_start := nxt\<rparr>)"

text \<open>
  One pass through the body of the per-site loop at request number \<open>k\<close>. The Boolean of the
  result says whether the loop goes on (\<open>False\<close> is a \<open>break\<close>).
\<close>

definition per_site_body ::
  "scan_env \<Rightarrow> GoogleSearchBindData \<Rightarrow> nat \<Rightarrow> GoogleSearchGlobalState
     \<Rightarrow> error + (bool \<times> GoogleSearchGlobalState)" where
  "per_site_body env bind_data k state =
     (let n = length (site_includes bind_data) in
      if active_sites (site_states state) = 0 then Inr (False, state)
      else case next_active (site_states state) n (current_site_idx state) 0 of
        None \<Rightarrow> Inl InternalException
      | Some idx \<Rightarrow>
          (let state1 = state\<lparr>current_site_idx := idx\<rparr>;
               site_state = site_states state ! idx
           in if exhausted site_state then Inr (False, state1)
              else if idx \<ge> n then Inl InternalException
              else
                (case fetch_page env bind_data k (next_start site_state)
                        (site_includes bind_data ! idx) False state1 of
                   Inl e \<Rightarrow> Inl e
                 | Inr (nxt, state2) \<Rightarrow>
                     Inr (True,
                          state2\<lparr>site_states := (site_states state2)[idx := advance_site site_state nxt],
                                 current_site_idx := (idx + 1) mod n\<rparr>))))"

text \<open>The update of the single cursor, and one pass through the body of the single-query loop.\<close>

definition advance_single :: "GoogleSearchGlobalState \<Rightarrow> int \<Rightarrow> int \<Rightarrow> GoogleSearchGlobalState" where
  "advance_single state2 start nxt =
     (if nxt < 0 \<or> start \<ge> 100 then state2\<lparr>fetch_complete := True\<rparr>
      else state2\<lparr>next_start_single := nxt\<rparr>)"

definition single_body ::
  "scan_env \<Rightarrow> GoogleSearchBindData \<Rightarrow> bool \<Rightarrow> nat \<Rightarrow> GoogleSearchGlobalState
     \<Rightarrow> error + GoogleSearchGlobalState" where
  "single_body env bind_data has_sites k state =
     (case fetch_page env bind_data k (next_start_single state) [] has_sites state of
        Inl e \<Rightarrow> Inl e
      | Inr (nxt, state2) \<Rightarrow> Inr (advance_single state2 (next_start_single state) nxt))"

subsection \<open>Facts about one page that the loops rely on\<close>

lemma push_items_length:
  "push_items items rs cap = Inr rs' \<Longrightarrow> length rs \<le> length rs'"
proof (induction items arbitrary: rs)
  case Nil
  then show ?case by simp
next
  case (Cons item rest)
  show ?case
  proof (cases "length rs \<ge> cap")
    case True
    with Cons.prems show ?thesis by simp
  next
    case False
    with Cons.prems obtain r where r: "make_result item = Inr r"
      and rec: "push_items rest (rs @ [r]) cap = Inr rs'"
      by (auto split: sum.splits)
    from Cons.IH [OF rec] show ?thesis by simp
  qed
qed

lemma push_items_grows:
  "push_items items rs cap = Inr rs' \<Longrightarrow> items \<noteq> [] \<Longrightarrow> length rs < cap \<Longrightarrow> length rs < length rs'"
proof (cases items)
  case Nil
  assume "items \<noteq> []"
  with Nil show ?thesis by simp
next
  case (Cons item rest)
  assume a: "push_items items rs cap = Inr rs'" and c: "length rs < cap"
  with Cons obtain r where rec: "push_items rest (rs @ [r]) cap = Inr rs'"
    by (auto split: sum.splits)
  from push_items_length [OF rec] show ?thesis by simp
qed

lemma Parse_results_length:
  assumes "ParseGoogleSearchResponse rd b state bind_data = Inr (nxt, state2)"
  shows "length (results state) \<le> length (results state2)"
  using assms
  by (auto simp: ParseGoogleSearchResponse_def dest: push_items_length
           split: option.splits sum.splits if_splits)

lemma Parse_token_grows:
  assumes "ParseGoogleSearchResponse rd b state bind_data = Inr (nxt, state2)"
    and "0 \<le> nxt" and "length (results state) < max_results bind_data"
  shows "length (results state) < length (results state2)"
  using assms
  by (auto simp: ParseGoogleSearchResponse_def dest: push_items_grows
           split: option.splits sum.splits if_splits)

lemma Parse_other_fields:
  assumes "ParseGoogleSearchResponse rd b state bind_data = Inr (nxt, state2)"
  shows "state2 = state\<lparr>results := results state2\<rparr>"
  using assms
  by (auto simp: ParseGoogleSearchResponse_def split: option.splits sum.splits if_splits)


lemma next_active_in_range:
  "next_active ss n idx attempts = Some i \<Longrightarrow> i < length ss"
proof (induction ss n idx attempts rule: next_active.induct)
  case (1 ss n idx attempts)
  note unf = next_active.simps [of ss n idx attempts]
  show ?case
  proof (cases "idx \<ge> length ss")
    case True
    with "1.prems" unf show ?thesis by simp
  next
    case False
    show ?thesis
    proof (cases "exhausted (ss ! idx) \<and> attempts < n")
      case True
      with False "1.prems" unf
      have "next_active ss n ((idx + 1) mod n) (attempts + 1) = Some i" by simp
      with "1.IH" False True show ?thesis by simp
    next
      case False
      with \<open>\<not> idx \<ge> length ss\<close> "1.prems" unf show ?thesis by (simp split: if_splits)
    qed
  qed
qed

lemma active_sites_update:
  "idx < length ss \<Longrightarrow> \<not> exhausted (ss ! idx) \<Longrightarrow>
   active_sites (ss[idx := x]) = (if exhausted x then active_sites ss - 1 else active_sites ss)
   \<and> 0 < active_sites ss"
proof (induction ss arbitrary: idx)
  case Nil
  then show ?case by simp
next
  case (Cons s ss)
  show ?case
  proof (cases idx)
    case 0
    with Cons.prems show ?thesis by (simp add: active_sites_def)
  next
    case (Suc j)
    with Cons.prems have "j < length ss" "\<not> exhausted (ss ! j)" by simp_all
    from Cons.IH [OF this] Suc show ?thesis by (auto simp: active_sites_def)
  qed
qed



lemma fetch_page_results_length:
  assumes "fetch_page env bind_data k start sf u state = Inr (nxt, state2)"
  shows "length (results state) \<le> length (results state2)"
  using assms unfolding fetch_page_def Let_def
  by (auto split: if_splits dest: Parse_results_length)

lemma fetch_page_token_grows:
  assumes "fetch_page env bind_data k start sf u state = Inr (nxt, state2)"
    and "0 \<le> nxt" and "length (results state) < max_results bind_data"
  shows "length (results state) < length (results state2)"
  using assms unfolding fetch_page_def Let_def
  by (auto split: if_splits dest: Parse_token_grows)

lemma fetch_page_other_fields:
  assumes "fetch_page env bind_data k start sf u state = Inr (nxt, state2)"
  shows "state2 = state\<lparr>results := results state2\<rparr>"
  using assms unfolding fetch_page_def Let_def
  by (auto split: if_splits dest: Parse_other_fields)

lemma per_site_body_continues:
  assumes "per_site_body env bind_data k state = Inr (True, state')"
  obtains idx nxt state2 where
    "next_active (site_states state) (length (site_includes bind_data)) (current_site_idx state) 0 = Some idx"
    "\<not> exhausted (site_states state ! idx)"
    "idx < length (site_includes bind_data)"
    "fetch_page env bind_data k (next_start (site_states state ! idx))
        (site_includes bind_data ! idx) False (state\<lparr>current_site_idx := idx\<rparr>) = Inr (nxt, state2)"
    "state' = state2\<lparr>site_states := (site_states state2)[idx := advance_site (site_states state ! idx) nxt],
                      current_site_idx := (idx + 1) mod length (site_includes bind_data)\<rparr>"
proof (cases "active_sites (site_states state) = 0")
  case True
  with assms show ?thesis by (simp add: per_site_body_def)
next
  case act: False
  show ?thesis
  proof (cases "next_active (site_states state) (length (site_includes bind_data)) (current_site_idx state) 0")
    case None
    with assms act show ?thesis by (simp add: per_site_body_def)
  next
    case (Some idx)
    show ?thesis
    proof (cases "exhausted (site_states state ! idx)")
      case True
      with assms act Some show ?thesis by (simp add: per_site_body_def)
    next
      case nex: False
      show ?thesis
      proof (cases "idx \<ge> length (site_includes bind_data)")
        case True
        with assms act Some nex show ?thesis by (simp add: per_site_body_def)
      next
        case inr: False
        show ?thesis
        proof (cases "fetch_page env bind_data k (next_start (site_states state ! idx))
                  (site_includes bind_data ! idx) False (state\<lparr>current_site_idx := idx\<rparr>)")
          case (Inl e)
          with assms act Some nex inr show ?thesis by (simp add: per_site_body_def)
        next
          case (Inr r)
          obtain nxt state2 where r: "r = (nxt, state2)" by (cases r)
          from assms act Some nex inr Inr r
          have "state' = state2\<lparr>site_states := (site_states state2)[idx := advance_site (site_states state ! idx) nxt],
                      current_site_idx := (idx + 1) mod length (site_includes bind_data)\<rparr>"
            by (simp add: per_site_body_def)
          with that Some nex inr Inr r show ?thesis by simp
        qed
      qed
    qed
  qed
qed


lemma per_site_body_decreases:
  assumes "per_site_body env bind_data k state = Inr (True, state')"
    and "length (results state) < max_results bind_data"
  shows "(max_results bind_data - length (results state')) + active_sites (site_states state')
         < (max_results bind_data - length (results state)) + active_sites (site_states state)"
proof -
  from assms(1) obtain idx nxt state2 where
      na: "next_active (site_states state) (length (site_includes bind_data)) (current_site_idx state) 0 = Some idx"
    and nex: "\<not> exhausted (site_states state ! idx)"
    and fp: "fetch_page env bind_data k (next_start (site_states state ! idx))
                (site_includes bind_data ! idx) False (state\<lparr>current_site_idx := idx\<rparr>) = Inr (nxt, state2)"
    and st': "state' = state2\<lparr>site_states := (site_states state2)[idx := advance_site (site_states state ! idx) nxt],
                      current_site_idx := (idx + 1) mod length (site_includes bind_data)\<rparr>"
    by (rule per_site_body_continues)
  from na have inr: "idx < length (site_states state)" by (rule next_active_in_range)
  from arg_cong [OF fetch_page_other_fields [OF fp], of site_states]
  have ss2: "site_states state2 = site_states state" by simp
  from fetch_page_results_length [OF fp]
  have le: "length (results state) \<le> length (results state2)" by simp
  from st' ss2 have ss': "site_states state' = (site_states state)[idx := advance_site (site_states state ! idx) nxt]"
    and rs': "results state' = results state2" by simp_all
  note upd = active_sites_update [OF inr nex]
  show ?thesis
  proof (cases "nxt < 0 \<or> next_start (site_states state ! idx) \<ge> 100")
    case True
    then have "exhausted (advance_site (site_states state ! idx) nxt)"
      by (auto simp: advance_site_def)
    with upd [of "advance_site (site_states state ! idx) nxt"]
    have "active_sites (site_states state') < active_sites (site_states state)"
      unfolding ss' by simp
    with le rs' show ?thesis by simp
  next
    case False
    then have nn: "0 \<le> nxt" by simp
    from False nex have "\<not> exhausted (advance_site (site_states state ! idx) nxt)"
      by (auto simp: advance_site_def)
    with upd [of "advance_site (site_states state ! idx) nxt"]
    have eq: "active_sites (site_states state') = active_sites (site_states state)"
      unfolding ss' by simp
    from fetch_page_token_grows [OF fp nn] assms(2)
    have "length (results state) < length (results state2)" by simp
    with eq rs' assms(2) show ?thesis by simp
  qed
qed

function per_site_loop ::
  "scan_env \<Rightarrow> GoogleSearchBindData \<Rightarrow> nat \<Rightarrow> GoogleSearchGlobalState
     \<Rightarrow> error + GoogleSearchGlobalState" where
  "per_site_loop env bind_data k state =
     (if length (results state) < max_results bind_data then
        (case per_site_body env bind_data k state of
           Inl e \<Rightarrow> Inl e
         | Inr (go, state') \<Rightarrow>
             if go then per_site_loop env bind_data (k + 1) state' else Inr state')
      else Inr state)"
  by pat_completeness auto
termination
proof (relation "measure (\<lambda>(env, bind_data, k, state).
        (max_results bind_data - length (results state)) + active_sites (site_states state))")
  show "wf (measure (\<lambda>(env, bind_data, k, state).
        (max_results bind_data - length (results state)) + active_sites (site_states state)))"
    by simp
next
  fix env bind_data k state b x y
  assume lt: "length (results state) < max_results bind_data"
    and b: "per_site_body env bind_data k state = Inr b" and xy: "(x, y) = b" and x: "x"
  from b xy x have "per_site_body env bind_data k state = Inr (True, y)" by auto
  from per_site_body_decreases [OF this lt]
  show "((env, bind_data, k + 1, y), env, bind_data, k, state)
          \<in> measure (\<lambda>(env, bind_data, k, state).
               (max_results bind_data - length (results state)) + active_sites (site_states state))"
    by simp
qed

declare per_site_loop.simps [simp del]

lemma single_body_continues:
  assumes "single_body env bind_data has_sites k state = Inr state'"
  obtains nxt state2 where
    "fetch_page env bind_data k (next_start_single state) [] has_sites state = Inr (nxt, state2)"
    "state' = advance_single state2 (next_start_single state) nxt"
proof (cases "fetch_page env bind_data k (next_start_single state) [] has_sites state")
  case (Inl e)
  with assms show ?thesis by (simp add: single_body_def)
next
  case (Inr r)
  obtain nxt state2 where r: "r = (nxt, state2)" by (cases r)
  from assms Inr r have "state' = advance_single state2 (next_start_single state) nxt"
    by (simp add: single_body_def)
  with that Inr r show ?thesis by simp
qed

lemma single_body_decreases:
  assumes "single_body env bind_data has_sites k state = Inr state'"
    and "length (results state) < max_results bind_data" and "\<not> fetch_complete state"
  shows "(max_results bind_data - length (results state')) + (if fetch_complete state' then 0 else 1)
         < (max_results bind_data - length (results state)) + 1"
proof -
  from assms(1) obtain nxt state2 where
      fp: "fetch_page env bind_data k (next_start_single state) [] has_sites state = Inr (nxt, state2)"
    and st': "state' = advance_single state2 (next_start_single state) nxt"
    by (rule single_body_continues)
  from fetch_page_results_length [OF fp]
  have le: "length (results state) \<le> length (results state2)" .
  show ?thesis
  proof (cases "nxt < 0 \<or> next_start_single state \<ge> 100")
    case True
    with st' have "fetch_complete state'" "results state' = results state2"
      by (simp_all add: advance_single_def)
    with le assms(2) show ?thesis by simp
  next
    case False
    then have nn: "0 \<le> nxt" by simp
    from False st' have rs: "results state' = results state2"
      by (simp add: advance_single_def)
    from fetch_page_token_grows [OF fp nn assms(2)] rs assms(2) show ?thesis
      by (cases "fetch_complete state'") simp_all
  qed
qed

function single_loop ::
  "scan_env \<Rightarrow> GoogleSearchBindData \<Rightarrow> bool \<Rightarrow> nat \<Rightarrow> GoogleSearchGlobalState
     \<Rightarrow> error + GoogleSearchGlobalState" where
  "single_loop env bind_data has_sites k state =
     (if length (results state) < max_results bind_data \<and> \<not> fetch_complete state then
        (case single_body env bind_data has_sites k state of
           Inl e \<Rightarrow> Inl e
         | Inr state' \<Rightarrow> single_loop env bind_data has_sites (k + 1) state')
      else Inr state)"
  by pat_completeness auto
termination
proof (relation "measure (\<lambda>(env, bind_data, has_sites, k, state).
        (max_results bind_data - length (results state)) + (if fetch_complete state then 0 else 1))")
  show "wf (measure (\<lambda>(env, bind_data, has_sites, k, state).
        (max_results bind_data - length (results state)) + (if fetch_complete state then 0 else 1)))"
    by simp
next
  fix env bind_data has_sites k state b
  assume g: "length (results state) < max_results bind_data \<and> \<not> fetch_complete state"
    and b: "single_body env bind_data has_sites k state = Inr b"
  from g have lt: "length (results state) < max_results bind_data" and nc: "\<not> fetch_complete state"
    by simp_all
  from single_body_decreases [OF b lt nc] nc
  show "((env, bind_data, has_sites, k + 1, b), env, bind_data, has_sites, k, state)
          \<in> measure (\<lambda>(env, bind_data, has_sites, k, state).
               (max_results bind_data - length (results state)) + (if fetch_complete state then 0 else 1))"
    by simp
qed

declare single_loop.simps [simp del]

text \<open>\<open>std::vector::resize\<close> with value-initialised new elements.\<close>

definition resize_states :: "nat \<Rightarrow> SitePaginationState list \<Rightarrow> SitePaginationState list" where
  "resize_states n ss = take n ss @ replicate (n - length ss) SitePaginationState_default"

definition FetchGoogleSearchResults ::
  "scan_env \<Rightarrow> GoogleSearchGlobalState \<Rightarrow> GoogleSearchBindData \<Rightarrow> error + GoogleSearchGlobalState" where
  "FetchGoogleSearchResults env state bind_data =
     (if use_per_site_queries bind_data then
        per_site_loop env bind_data 0
          (state\<lparr>site_states := resize_states (length (site_includes bind_data)) (site_states state)\<rparr>)
      else
        (let has_sites = (site_includes bind_data \<noteq> [])
         in single_loop env bind_data has_sites 0 state))"

subsection \<open>Filter pushdown: \<open>ExtractLikePattern\<close> and \<open>GoogleSearchPushdownComplexFilter\<close>\<close>

text \<open>The result and the two output flags \<open>is_prefix\<close>, \<open>is_suffix\<close>, in this order.\<close>

definition ExtractLikePattern :: "string \<Rightarrow> string \<times> bool \<times> bool" where
  "ExtractLikePattern pattern =
     (if pattern = [] then (pattern, False, False)
      else
        (let (result1, is_suffix) =
               (if hd pattern = CHR ''%'' then (drop 1 pattern, True) else (pattern, False));
             (result2, is_prefix) =
               (if result1 \<noteq> [] \<and> last result1 = CHR ''%''
                then (take (length result1 - 1) result1, True) else (result1, False))
         in (result2, is_prefix, is_suffix)))"

text \<open>
  Bound expressions as the planner hands them over. A constant carries its logical type
  and payload: for \<open>VARCHAR\<close> the string that \<open>ToString\<close> returns, for the timestamp types
  the 64-bit microsecond count, for \<open>DATE\<close> the day number.
\<close>

datatype LogicalTypeId = VARCHAR | TIMESTAMP | TIMESTAMP_TZ | DATE | OTHER_TYPE

datatype Value =
    VarcharValue string
  | TimestampValue int
  | TimestampTzValue int
  | DateValue int
  | OtherValue

fun value_type_id :: "Value \<Rightarrow> LogicalTypeId" where
  "value_type_id (VarcharValue s) = VARCHAR"
| "value_type_id (TimestampValue t) = TIMESTAMP"
| "value_type_id (TimestampTzValue t) = TIMESTAMP_TZ"
| "value_type_id (DateValue d) = DATE"
| "value_type_id OtherValue = OTHER_TYPE"

datatype ExpressionType =
    COMPARE_EQUAL | COMPARE_NOTEQUAL
  | COMPARE_LESSTHAN | COMPARE_GREATERTHAN
  | COMPARE_LESSTHANOREQUALTO | COMPARE_GREATERTHANOREQUALTO
  | COMPARE_IN | COMPARE_NOT_IN | COMPARE_BETWEEN
  | OTHER_EXPRESSION_TYPE

datatype Expression =
    BoundColumnRef string
  | BoundConstant Value
  | BoundFunction string "Expression list"
  | BoundOperator ExpressionType "Expression list"
  | BoundComparison ExpressionType Expression Expression
  | BoundBetween
  | BoundOther

text \<open>
  The library conversions the absorber calls on a date bound: \<open>Timestamp::FromString\<close> and
  \<open>Timestamp::FromDatetime\<close> (\<open>None\<close> when they throw a conversion error).
\<close>

record conversions =
  Timestamp_FromString :: "string \<Rightarrow> int option"
  Timestamp_FromDatetime :: "int \<Rightarrow> int option"

text \<open>The value of \<open>ts_value\<close> for a date bound; \<open>Inr None\<close> is the \<open>else { continue; }\<close> branch.\<close>

fun bound_timestamp :: "conversions \<Rightarrow> Value \<Rightarrow> error + int option" where
  "bound_timestamp cv (TimestampValue t) = Inr (Some t)"
| "bound_timestamp cv (TimestampTzValue t) = Inr (Some t)"
| "bound_timestamp cv (DateValue d) =
     (case Timestamp_FromDatetime cv d of None \<Rightarrow> Inl ConversionException | Some t \<Rightarrow> Inr (Some t))"
| "bound_timestamp cv (VarcharValue s) =
     (case Timestamp_FromString cv s of None \<Rightarrow> Inl ConversionException | Some t \<Rightarrow> Inr (Some t))"
| "bound_timestamp cv OtherValue = Inr None"

text \<open>The \<open>IN\<close> list: the string constants among \<open>children[1..]\<close>, up to the first other child.\<close>

fun in_list_values :: "Expression list \<Rightarrow> string list \<times> bool" where
  "in_list_values [] = ([], True)"
| "in_list_values (BoundConstant (VarcharValue s) # cs) =
     (let (vs, all_constants) = in_list_values cs in (s # vs, all_constants))"
| "in_list_values (c # cs) = ([], False)"

text \<open>
  The body of the loop over the filters, for one filter: the updated bind data and whether
  the filter's index is pushed onto \<open>filters_to_remove\<close>.
\<close>

fun absorb_function :: "GoogleSearchBindData \<Rightarrow> Expression \<Rightarrow> (GoogleSearchBindData \<times> bool) option" where
  "absorb_function bd (BoundFunction name (BoundColumnRef col # BoundConstant (VarcharValue s) # others)) =
     (if name = ''suffix'' \<and> col = ''site'' then
        Some (bd\<lparr>site_includes := site_includes bd @ [s]\<rparr>, True)
      else if name = ''prefix'' \<and> col = ''site'' then
        Some (bd\<lparr>site_includes := site_includes bd @ [s]\<rparr>, True)
      else None)"
| "absorb_function bd e = None"

fun absorb_operator :: "GoogleSearchBindData \<Rightarrow> Expression \<Rightarrow> (GoogleSearchBindData \<times> bool) option" where
  "absorb_operator bd (BoundOperator t (BoundColumnRef col # c # cs)) =
     (if col = ''site'' then
        (let (site_values, all_constants) = in_list_values (c # cs)
         in if all_constants \<and> site_values \<noteq> [] then
              Some (bd\<lparr>site_includes := site_includes bd @ site_values\<rparr>, True)
            else None)
      else None)"
| "absorb_operator bd e = None"

fun absorb_comparison ::
  "conversions \<Rightarrow> GoogleSearchBindData \<Rightarrow> Expression \<Rightarrow> error + (GoogleSearchBindData \<times> bool) option" where
  "absorb_comparison cv bd (BoundComparison t (BoundColumnRef col) (BoundConstant v)) =
     (if t = COMPARE_EQUAL \<and> col = ''site'' \<and> value_type_id v = VARCHAR then
        (case v of VarcharValue s \<Rightarrow> Inr (Some (bd\<lparr>site_includes := site_includes bd @ [s]\<rparr>, True))
                 | _ \<Rightarrow> Inr None)
      else if t = COMPARE_NOTEQUAL \<and> col = ''site'' \<and> value_type_id v = VARCHAR then
        (case v of VarcharValue s \<Rightarrow> Inr (Some (bd\<lparr>site_excludes := site_excludes bd @ [s]\<rparr>, True))
                 | _ \<Rightarrow> Inr None)
      else if (t = COMPARE_GREATERTHAN \<or> t = COMPARE_GREATERTHANOREQUALTO)
              \<and> (col = ''timestamp'' \<or> col = ''date'') then
        (case bound_timestamp cv v of
           Inl e \<Rightarrow> Inl e
         | Inr None \<Rightarrow> Inr (Some (bd, False))
         | Inr (Some ts_value) \<Rightarrow>
             Inr (Some (bd\<lparr>date_from := ts_value, has_date_filter := True\<rparr>, False)))
      else if (t = COMPARE_LESSTHAN \<or> t = COMPARE_LESSTHANOREQUALTO)
              \<and> (col = ''timestamp'' \<or> col = ''date'') then
        (case bound_timestamp cv v of
           Inl e \<Rightarrow> Inl e
         | Inr None \<Rightarrow> Inr (Some (bd, False))
         | Inr (Some ts_value) \<Rightarrow>
             Inr (Some (bd\<lparr>date_to := ts_value, has_date_filter := True\<rparr>, False)))
      else Inr None)"
| "absorb_comparison cv bd e = Inr None"

definition absorb_filter ::
  "conversions \<Rightarrow> GoogleSearchBindData \<Rightarrow> Expression \<Rightarrow> error + (GoogleSearchBindData \<times> bool)" where
  "absorb_filter cv bd filter' =
     (case absorb_function bd filter' of
        Some r \<Rightarrow> Inr r
      | None \<Rightarrow>
          (case absorb_operator bd filter' of
             Some r \<Rightarrow> Inr r
           | None \<Rightarrow>
               (case absorb_comparison cv bd filter' of
                  Inl e \<Rightarrow> Inl e
                | Inr (Some r) \<Rightarrow> Inr r
                | Inr None \<Rightarrow> Inr (bd, False))))"

text \<open>The loop over \<open>filters\<close> from index \<open>i\<close> on, collecting \<open>filters_to_remove\<close>.\<close>

fun absorb_loop ::
  "conversions \<Rightarrow> Expression list \<Rightarrow> nat \<Rightarrow> GoogleSearchBindData \<Rightarrow> nat list
     \<Rightarrow> error + (GoogleSearchBindData \<times> nat list)" where
  "absorb_loop cv [] i bd filters_to_remove = Inr (bd, filters_to_remove)"
| "absorb_loop cv (f # fs) i bd filters_to_remove =
     (case absorb_filter cv bd f of
        Inl e \<Rightarrow> Inl e
      | Inr (bd', remove) \<Rightarrow>
          absorb_loop cv fs (Suc i) bd' (if remove then filters_to_remove @ [i] else filters_to_remove))"

text \<open>\<open>filters.erase(filters.begin() + i)\<close>\<close>

definition erase_at :: "nat \<Rightarrow> 'a list \<Rightarrow> 'a list" where
  "erase_at i xs = take i xs @ drop (Suc i) xs"

definition GoogleSearchPushdownComplexFilter ::
  "conversions \<Rightarrow> GoogleSearchBindData \<Rightarrow> Expression list
     \<Rightarrow> error + (GoogleSearchBindData \<times> Expression list)" where
  "GoogleSearchPushdownComplexFilter cv bind_data filters' =
     (case absorb_loop cv filters' 0 bind_data [] of
        Inl e \<Rightarrow> Inl e
      | Inr (bd', filters_to_remove) \<Rightarrow>
          Inr (bd', foldl (\<lambda>fs i. erase_at i fs) filters' (rev filters_to_remove)))"


subsection \<open>Binding and \<open>OptimizeGoogleSearchLimitPushdown\<close>\<close>

definition GoogleSearchFilters_default :: GoogleSearchFilters where
  "GoogleSearchFilters_default =
     \<lparr>exact_terms = [], exclude_terms = [], or_terms = [], date_restrict = [], file_type = [],
      site_search = [], site_search_filter = [], gl = [], hl = [], language = [], safe = [],
      rights = [], sort = [], structured_data = []\<rparr>"

text \<open>A freshly made \<open>GoogleSearchBindData\<close>: the member initialisers, everything else zeroed.\<close>

definition GoogleSearchBindData_default :: GoogleSearchBindData where
  "GoogleSearchBindData_default =
     \<lparr>query = [], api_key = [], cx = [], max_results = 100, column_names = [],
      site_includes = [], site_excludes = [], date_from = 0, date_to = 0,
      has_date_filter = False, filters = GoogleSearchFilters_default\<rparr>"




text \<open>
  The part of a logical plan that the limit rule looks at. A limit and a projection have
  exactly one child; a scan carries the name of its table function and its bind data.
\<close>

datatype BoundLimitNode =
    Unset
  | ConstantValue nat
  | ConstantPercentage
  | ExpressionValue
  | ExpressionPercentage






text \<open>The relation between the two fields \<open>link\<close> and \<open>site\<close> of a record that the parser establishes.\<close>

definition site_derived :: "GoogleSearchResult \<Rightarrow> bool" where
  "site_derived r = (ExtractDomain (link r) = Some (site r))"

text \<open>
  The predicates whose index the absorber pushes onto \<open>filters_to_remove\<close>, and the
  comparisons it reads a date bound from.
\<close>

fun is_site_predicate :: "Expression \<Rightarrow> bool" where
  "is_site_predicate (BoundFunction name (BoundColumnRef col # BoundConstant (VarcharValue s) # others)) =
     ((name = ''suffix'' \<or> name = ''prefix'') \<and> col = ''site'')"
| "is_site_predicate (BoundOperator t (BoundColumnRef col # c # cs)) =
     (col = ''site'' \<and> snd (in_list_values (c # cs)) \<and> fst (in_list_values (c # cs)) \<noteq> [])"
| "is_site_predicate (BoundComparison t (BoundColumnRef col) (BoundConstant (VarcharValue s))) =
     ((t = COMPARE_EQUAL \<or> t = COMPARE_NOTEQUAL) \<and> col = ''site'')"
| "is_site_predicate e = False"

fun is_date_bound :: "Expression \<Rightarrow> bool" where
  "is_date_bound (BoundComparison t (BoundColumnRef col) (BoundConstant v)) =
     ((t = COMPARE_GREATERTHAN \<or> t = COMPARE_GREATERTHANOREQUALTO
       \<or> t = COMPARE_LESSTHAN \<or> t = COMPARE_LESSTHANOREQUALTO)
      \<and> (col = ''timestamp'' \<or> col = ''date''))"
| "is_date_bound e = False"

text \<open>The value that \<open>ParseGoogleSearchResponse\<close> returns for a document without an error member.\<close>

definition page_next_start :: "api_doc \<Rightarrow> int" where
  "page_next_start doc =
     (case doc_items doc of
        None \<Rightarrow> - 1
      | Some items \<Rightarrow>
          if items = [] then - 1
          else (case doc_next_start doc of Some n \<Rightarrow> int32_wrap n | None \<Rightarrow> - 1))"

text \<open>The parsed document that request number \<open>k\<close>, made for the given cursor, receives.\<close>

definition received_doc ::
  "scan_env \<Rightarrow> GoogleSearchBindData \<Rightarrow> nat \<Rightarrow> int \<Rightarrow> string \<Rightarrow> bool \<Rightarrow> api_doc option" where
  "received_doc env bind_data k start site_filter use_or_sites =
     (let url = BuildGoogleSearchUrl (clock env k) bind_data start site_filter use_or_sites
      in yyjson_read env (body (fst (Fetch (network env k url) url RetryConfig_default))))"

section \<open>Concrete inputs used in the examples below\<close>

definition example_url :: string where
  "example_url = ''https://www.googleapis.com/customsearch/v1?q=x''"

definition net_fail3_then_ok :: "nat \<Rightarrow> http_outcome" where
  "net_fail3_then_ok k =
     (if k < 3 then Row (Some 503) None None None else Row (Some 200) (Some ''{}'') None None)"

definition net_always_503 :: "nat \<Rightarrow> http_outcome" where
  "net_always_503 k = Row (Some 503) None None None"

definition net_not_found :: "nat \<Rightarrow> http_outcome" where
  "net_not_found k = Row (Some 404) None None None"

definition net_429_then_ok :: "string \<Rightarrow> nat \<Rightarrow> http_outcome" where
  "net_429_then_ok ra k =
     (if k = 0 then Row (Some 429) None None (Some ra) else Row (Some 200) (Some ''{}'') None None)"

text \<open>
  The waiting time as the specification words it: the retry-after header parsed as seconds
  and converted to milliseconds when the status is 429 and the header is present and
  parses, the exponential backoff otherwise; clamped to \<open>max_backoff_ms\<close>.
\<close>

definition claimed_wait_ms :: "RetryConfig \<Rightarrow> int \<Rightarrow> HttpResponse \<Rightarrow> int" where
  "claimed_wait_ms config attempt response =
     min (max_backoff_ms config)
       (if status_code response = 429 \<and> retry_after response \<noteq> [] then
          (case stoi (retry_after response) of
             Some seconds \<Rightarrow> seconds * 1000
           | None \<Rightarrow> exp_backoff config attempt)
        else exp_backoff config attempt)"


text \<open>A scan whose first page holds one item and no continuation token.\<close>

definition example_item :: json_item where
  "example_item =
     Item [(''title'', ''T''), (''link'', ''https://user@host.example:8080/a/b'')] None"



definition example_bind :: GoogleSearchBindData where
  "example_bind = GoogleSearchBindData_default\<lparr>query := ''x''\<rparr>"

definition example_result :: GoogleSearchResult where
  "example_result =
     \<lparr>title = ''T'', link = ''https://user@host.example:8080/a/b'', snippet = [],
      display_link = [], formatted_url = [], html_formatted_url = [], html_title = [],
      html_snippet = [], mime = [], file_format = [], pagemap = [],
      site = ''user@host.example:8080'', date = []\<rparr>"


text \<open>
  Requests with a date lower bound: one at the epoch instant (\<open>date >= TIMESTAMP '1970-01-01
  00:00:00'\<close>), one an hour before the clock reading \<open>1700000000\<close>, one at second
  \<open>1699000000\<close>.
\<close>

definition bind_from_epoch :: GoogleSearchBindData where
  "bind_from_epoch = example_bind\<lparr>date_from := 0, has_date_filter := True\<rparr>"

definition bind_from_hour_ago :: GoogleSearchBindData where
  "bind_from_hour_ago = example_bind\<lparr>date_from := 1699996400000000, has_date_filter := True\<rparr>"

definition bind_from_1699000000 :: GoogleSearchBindData where
  "bind_from_1699000000 = example_bind\<lparr>date_from := 1699000000000000, has_date_filter := True\<rparr>"

definition filter_date_ge_epoch :: Expression where
  "filter_date_ge_epoch =
     BoundComparison COMPARE_GREATERTHANOREQUALTO (BoundColumnRef ''date'')
       (BoundConstant (TimestampValue 0))"

definition no_conversions :: conversions where
  "no_conversions = \<lparr>Timestamp_FromString = (\<lambda>s. None), Timestamp_FromDatetime = (\<lambda>d. None)\<rparr>"

text \<open>Predicates: \<open>site LIKE '%.example.com'\<close> as the planner hands it over, and a date bound.\<close>

definition filter_site_suffix :: Expression where
  "filter_site_suffix =
     BoundFunction ''suffix'' [BoundColumnRef ''site'', BoundConstant (VarcharValue ''.example.com'')]"

definition filter_date_gt :: Expression where
  "filter_date_gt =
     BoundComparison COMPARE_GREATERTHAN (BoundColumnRef ''date'')
       (BoundConstant (TimestampValue 1699000000000000))"

definition filter_title_eq :: Expression where
  "filter_title_eq =
     BoundComparison COMPARE_EQUAL (BoundColumnRef ''title'') (BoundConstant (VarcharValue ''T''))"







text \<open>A single cursor standing at start index 100, and a page that carries a continuation token.\<close>

definition example_doc_token :: api_doc where
  "example_doc_token = \<lparr>doc_error = None, doc_items = Some [example_item], doc_next_start = Some 110\<rparr>"

definition env_token :: scan_env where
  "env_token =
     \<lparr>clock = (\<lambda>k. 1700000000),
      network = (\<lambda>k url attempt. Row (Some 200) (Some ''page'') None None),
      yyjson_read = (\<lambda>b. Some example_doc_token)\<rparr>"

definition state_at_100 :: GoogleSearchGlobalState where
  "state_at_100 = GoogleSearchGlobalState_default\<lparr>next_start_single := 100\<rparr>"

definition state_after_100 :: GoogleSearchGlobalState where
  "state_after_100 =
     GoogleSearchGlobalState_default
       \<lparr>results := [example_result], next_start_single := 100, fetch_complete := True\<rparr>"

text \<open>A page with three items: a link with a scheme, a link without one, and no link at all.\<close>

definition item_no_scheme :: json_item where
  "item_no_scheme = Item [(''link'', ''example.org/page'')] None"

definition item_no_link :: json_item where
  "item_no_link = Item [(''title'', ''untitled'')] None"

definition doc_three_links :: api_doc where
  "doc_three_links =
     \<lparr>doc_error = None, doc_items = Some [example_item, item_no_scheme, item_no_link],
      doc_next_start = None\<rparr>"

definition env_three_links :: scan_env where
  "env_three_links =
     \<lparr>clock = (\<lambda>k. 1700000000),
      network = (\<lambda>k url attempt. Row (Some 200) (Some ''page'') None None),
      yyjson_read = (\<lambda>b. Some doc_three_links)\<rparr>"

definition result_no_scheme :: GoogleSearchResult where
  "result_no_scheme =
     \<lparr>title = [], link = ''example.org/page'', snippet = [],
      display_link = [], formatted_url = [], html_formatted_url = [], html_title = [],
      html_snippet = [], mime = [], file_format = [], pagemap = [],
      site = ''example.org'', date = []\<rparr>"

definition result_no_link :: GoogleSearchResult where
  "result_no_link =
     \<lparr>title = ''untitled'', link = [], snippet = [],
      display_link = [], formatted_url = [], html_formatted_url = [], html_title = [],
      html_snippet = [], mime = [], file_format = [], pagemap = [],
      site = [], date = []\<rparr>"

definition state_three_links :: GoogleSearchGlobalState where
  "state_three_links =
     GoogleSearchGlobalState_default
       \<lparr>results := [example_result, result_no_scheme, result_no_link], fetch_complete := True\<rparr>"

text \<open>
  A scan whose pages are short: request number \<open>k\<close> (for \<open>k < 10\<close>) returns one item and
  the continuation token \<open>10 * k + 11\<close>, so the tenth page (start index 91) returns the
  token 101; an eleventh request is answered with status 400. \<open>pages_done n\<close> is the state
  of the scan after \<open>n\<close> such pages.
\<close>

definition env_short_pages :: scan_env where
  "env_short_pages =
     \<lparr>clock = (\<lambda>k. 1700000000),
      network = (\<lambda>k url attempt.
                   if k < 10 then Row (Some 200) (Some (replicate k CHR ''p'')) None None
                   else Row (Some 400) None None None),
      yyjson_read = (\<lambda>b. Some \<lparr>doc_error = None, doc_items = Some [example_item],
                                doc_next_start = Some (int (length b) * 10 + 11)\<rparr>)\<rparr>"

definition pages_done :: "nat \<Rightarrow> GoogleSearchGlobalState" where
  "pages_done n =
     GoogleSearchGlobalState_default
       \<lparr>results := replicate n example_result, next_start_single := int n * 10 + 1\<rparr>"

section \<open>Transport: retry classification and waiting times\<close>

lemma ExecuteHttpGet_success:
  "success (ExecuteHttpGet out) \<Longrightarrow> \<not> IsRetryable (status_code (ExecuteHttpGet out))"
  by (cases out) (auto simp: HttpResponse_default_def IsRetryable_def Let_def)

lemma Fetch_loop_unfold:
  assumes "attempt \<le> max_retries config"
  shows "Fetch_loop net url config attempt sleeps =
     (let response = ExecuteHttpGet (net (nat attempt)) in
      if IsRetryable (status_code response) then
        (if attempt < max_retries config then
           Fetch_loop net url config (attempt + 1) (sleeps @ [wait_ms config attempt response])
         else (response\<lparr>error := ''Max retries exceeded for URL: '' @ url\<rparr>, sleeps))
      else (response, sleeps))"
proof (cases "IsRetryable (status_code (ExecuteHttpGet (net (nat attempt))))")
  case True
  then have "\<not> success (ExecuteHttpGet (net (nat attempt)))"
    using ExecuteHttpGet_success by blast
  with True assms show ?thesis
    by (subst Fetch_loop.simps) (simp add: Let_def)
next
  case False
  with assms show ?thesis
    by (subst Fetch_loop.simps) (simp add: Let_def)
qed

lemma Fetch_loop_sleeps:
  assumes "0 \<le> attempt"
  shows "\<exists>m. snd (Fetch_loop net url config attempt sleeps) =
           sleeps @ map (\<lambda>i. wait_ms config (int i) (ExecuteHttpGet (net i))) [nat attempt ..< nat attempt + m]"
  using assms
proof (induction net url config attempt sleeps rule: Fetch_loop.induct)
  case (1 net url config attempt sleeps)
  let ?w = "\<lambda>i. wait_ms config (int i) (ExecuteHttpGet (net i))"
  let ?r = "ExecuteHttpGet (net (nat attempt))"
  show ?case
  proof (cases "attempt \<le> max_retries config \<and> IsRetryable (status_code ?r) \<and> attempt < max_retries config")
    case True
    then have ns: "\<not> success ?r" using ExecuteHttpGet_success by blast
    from True have unf: "Fetch_loop net url config attempt sleeps =
        Fetch_loop net url config (attempt + 1) (sleeps @ [wait_ms config attempt ?r])"
      by (subst Fetch_loop_unfold) (simp_all add: Let_def)
    from "1.IH" [OF _ refl ns] True "1.prems"
    obtain m where m: "snd (Fetch_loop net url config (attempt + 1) (sleeps @ [wait_ms config attempt ?r])) =
        (sleeps @ [wait_ms config attempt ?r]) @ map ?w [nat (attempt + 1) ..< nat (attempt + 1) + m]"
      by auto
    from "1.prems" have n1: "nat (attempt + 1) = Suc (nat attempt)" by simp
    from "1.prems" have w: "wait_ms config attempt ?r = ?w (nat attempt)" by simp
    have "sleeps @ map ?w [nat attempt ..< nat attempt + Suc m]
          = (sleeps @ [wait_ms config attempt ?r]) @ map ?w [nat (attempt + 1) ..< nat (attempt + 1) + m]"
      unfolding n1 w by (simp add: upt_conv_Cons del: upt_Suc)
    with unf m show ?thesis by metis
  next
    case False
    then have "snd (Fetch_loop net url config attempt sleeps) = sleeps"
      by (subst Fetch_loop.simps) (auto simp: Let_def)
    then have "snd (Fetch_loop net url config attempt sleeps) = sleeps @ map ?w [nat attempt ..< nat attempt + 0]"
      by simp
    then show ?thesis by blast
  qed
qed

lemma Fetch_loop_exhaust:
  assumes "0 \<le> attempt" "attempt \<le> max_retries config"
    and "\<And>k. nat attempt \<le> k \<Longrightarrow> k \<le> nat (max_retries config) \<Longrightarrow> IsRetryable (status_code (ExecuteHttpGet (net k)))"
  shows "fst (Fetch_loop net url config attempt sleeps) =
           (ExecuteHttpGet (net (nat (max_retries config))))\<lparr>error := ''Max retries exceeded for URL: '' @ url\<rparr>
         \<and> length (snd (Fetch_loop net url config attempt sleeps)) = length sleeps + nat (max_retries config - attempt)"
  using assms
proof (induction net url config attempt sleeps rule: Fetch_loop.induct)
  case (1 net url config attempt sleeps)
  let ?r = "ExecuteHttpGet (net (nat attempt))"
  from "1.prems" have retr: "IsRetryable (status_code ?r)" by simp
  then have ns: "\<not> success ?r" using ExecuteHttpGet_success by blast
  show ?case
  proof (cases "attempt < max_retries config")
    case True
    with "1.prems" retr have unf: "Fetch_loop net url config attempt sleeps =
        Fetch_loop net url config (attempt + 1) (sleeps @ [wait_ms config attempt ?r])"
      by (subst Fetch_loop_unfold) (simp_all add: Let_def)
    have "fst (Fetch_loop net url config (attempt + 1) (sleeps @ [wait_ms config attempt ?r])) =
           (ExecuteHttpGet (net (nat (max_retries config))))\<lparr>error := ''Max retries exceeded for URL: '' @ url\<rparr>
         \<and> length (snd (Fetch_loop net url config (attempt + 1) (sleeps @ [wait_ms config attempt ?r])))
             = length (sleeps @ [wait_ms config attempt ?r]) + nat (max_retries config - (attempt + 1))"
    proof (rule "1.IH" [OF _ refl ns])
      show "attempt \<le> max_retries config" using True by simp
      show "\<not> \<not> IsRetryable (status_code ?r)" using retr by simp
      show "\<not> max_retries config \<le> attempt" using True by simp
      show "0 \<le> attempt + 1" using "1.prems" by simp
      show "attempt + 1 \<le> max_retries config" using True by simp
      fix k assume "nat (attempt + 1) \<le> k" "k \<le> nat (max_retries config)"
      with "1.prems" show "IsRetryable (status_code (ExecuteHttpGet (net k)))" by simp
    qed
    with unf True "1.prems" show ?thesis by (simp add: nat_diff_distrib)
  next
    case False
    with "1.prems" have eq: "attempt = max_retries config" by simp
    with retr have "Fetch_loop net url config attempt sleeps =
        (?r\<lparr>error := ''Max retries exceeded for URL: '' @ url\<rparr>, sleeps)"
      by (subst Fetch_loop_unfold) (simp_all add: Let_def)
    with eq show ?thesis by simp
  qed
qed

lemma ParseRetryAfter_seconds:
  assumes "stoi ra = Some s" and "- 2147483 \<le> s" and "s \<le> 2147483"
  shows "ParseRetryAfter ra = s * 1000"
proof -
  from assms(1) have "ra \<noteq> []" by (auto simp: stoi_def)
  with assms show ?thesis by (simp add: ParseRetryAfter_def int32_wrap_def)
qed

text \<open>
  C7 as stated counts \<open>max_retries\<close> retryable failures before the terminal failure. With
  the default \<open>max_retries = 3\<close>, three retryable failures (status 503) are followed by a
  fourth attempt, and when that one succeeds the result is the success.
\<close>

theorem Fetch_three_failures_then_success:
  "max_retries RetryConfig_default = 3
   \<and> IsRetryable (status_code (ExecuteHttpGet (net_fail3_then_ok 0)))
   \<and> IsRetryable (status_code (ExecuteHttpGet (net_fail3_then_ok 1)))
   \<and> IsRetryable (status_code (ExecuteHttpGet (net_fail3_then_ok 2)))
   \<and> success (fst (Fetch net_fail3_then_ok example_url RetryConfig_default))
   \<and> error (fst (Fetch net_fail3_then_ok example_url RetryConfig_default)) = []
   \<and> length (snd (Fetch net_fail3_then_ok example_url RetryConfig_default)) = 3"
  by (simp add: Fetch_def Fetch_loop.simps net_fail3_then_ok_def RetryConfig_default_def
        HttpResponse_default_def IsRetryable_def Let_def)

text \<open>
  C7, amended: with \<open>max_retries \<ge> 0\<close>, an attempt \<open>a \<le> max_retries\<close> is followed by
  another one exactly when its status code is \<open>\<le> 0\<close>, \<open>429\<close> or in \<open>500..504\<close> and
  \<open>a < max_retries\<close>; a response with any other status is returned as it is, at once (for
  the first attempt: without any sleep); and when the first attempt and all \<open>max_retries\<close>
  retries (\<open>max_retries + 1\<close> attempts) fail with a retryable status, the result is the last
  response, not successful, with the error \<open>Max retries exceeded for URL: \<close> followed by the
  URL, after exactly \<open>max_retries\<close> sleeps.
\<close>

theorem Fetch_retry_policy:
  assumes "0 \<le> max_retries config"
  shows "(\<forall>a sleeps. 0 \<le> a \<and> a \<le> max_retries config \<longrightarrow>
            Fetch_loop net url config a sleeps =
              (let response = ExecuteHttpGet (net (nat a)) in
               if IsRetryable (status_code response) then
                 (if a < max_retries config then
                    Fetch_loop net url config (a + 1) (sleeps @ [wait_ms config a response])
                  else (response\<lparr>error := ''Max retries exceeded for URL: '' @ url\<rparr>, sleeps))
               else (response, sleeps)))
       \<and> (IsRetryable sc \<longleftrightarrow> sc \<le> 0 \<or> sc = 429 \<or> (500 \<le> sc \<and> sc \<le> 504))
       \<and> (\<not> IsRetryable (status_code (ExecuteHttpGet (net 0))) \<longrightarrow>
            Fetch net url config = (ExecuteHttpGet (net 0), []))
       \<and> ((\<forall>k \<le> nat (max_retries config). IsRetryable (status_code (ExecuteHttpGet (net k)))) \<longrightarrow>
            fst (Fetch net url config) =
              (ExecuteHttpGet (net (nat (max_retries config))))
                \<lparr>error := ''Max retries exceeded for URL: '' @ url\<rparr>
            \<and> \<not> success (fst (Fetch net url config))
            \<and> suffix url (error (fst (Fetch net url config)))
            \<and> length (snd (Fetch net url config)) = nat (max_retries config))"
proof (intro conjI allI impI)
  fix a sleeps
  assume "0 \<le> a \<and> a \<le> max_retries config"
  then show "Fetch_loop net url config a sleeps =
              (let response = ExecuteHttpGet (net (nat a)) in
               if IsRetryable (status_code response) then
                 (if a < max_retries config then
                    Fetch_loop net url config (a + 1) (sleeps @ [wait_ms config a response])
                  else (response\<lparr>error := ''Max retries exceeded for URL: '' @ url\<rparr>, sleeps))
               else (response, sleeps))"
    by (simp add: Fetch_loop_unfold)
next
  show "IsRetryable sc \<longleftrightarrow> sc \<le> 0 \<or> sc = 429 \<or> (500 \<le> sc \<and> sc \<le> 504)"
    by (simp add: IsRetryable_def)
next
  assume "\<not> IsRetryable (status_code (ExecuteHttpGet (net 0)))"
  with assms show "Fetch net url config = (ExecuteHttpGet (net 0), [])"
    unfolding Fetch_def by (subst Fetch_loop_unfold) (simp_all add: Let_def)
next
  assume all: "\<forall>k \<le> nat (max_retries config). IsRetryable (status_code (ExecuteHttpGet (net k)))"
  have ex: "fst (Fetch_loop net url config 0 []) =
           (ExecuteHttpGet (net (nat (max_retries config))))\<lparr>error := ''Max retries exceeded for URL: '' @ url\<rparr>
         \<and> length (snd (Fetch_loop net url config 0 [])) = length ([] :: int list) + nat (max_retries config - 0)"
    by (rule Fetch_loop_exhaust) (use assms all in simp_all)
  from ex show "fst (Fetch net url config) =
      (ExecuteHttpGet (net (nat (max_retries config))))\<lparr>error := ''Max retries exceeded for URL: '' @ url\<rparr>"
    by (simp add: Fetch_def)
  from all have "IsRetryable (status_code (ExecuteHttpGet (net (nat (max_retries config)))))" by simp
  then have "\<not> success (ExecuteHttpGet (net (nat (max_retries config))))"
    using ExecuteHttpGet_success by blast
  with ex show "\<not> success (fst (Fetch net url config))" by (simp add: Fetch_def)
  from ex show "suffix url (error (fst (Fetch net url config)))"
    by (simp add: Fetch_def suffix_def)
  from ex show "length (snd (Fetch net url config)) = nat (max_retries config)"
    by (simp add: Fetch_def)
qed

theorem Fetch_retry_policy_witness:
  "0 \<le> max_retries RetryConfig_default
   \<and> \<not> IsRetryable (status_code (ExecuteHttpGet (net_not_found 0)))
   \<and> Fetch net_not_found example_url RetryConfig_default = (ExecuteHttpGet (net_not_found 0), [])
   \<and> IsRetryable (status_code (ExecuteHttpGet (net_always_503 0)))
   \<and> IsRetryable (status_code (ExecuteHttpGet (net_always_503 3)))
   \<and> error (fst (Fetch net_always_503 example_url RetryConfig_default))
       = ''Max retries exceeded for URL: https://www.googleapis.com/customsearch/v1?q=x''
   \<and> length (snd (Fetch net_always_503 example_url RetryConfig_default)) = 3"
  using Fetch_retry_policy [of RetryConfig_default net_not_found example_url 404]
        Fetch_retry_policy [of RetryConfig_default net_always_503 example_url 503]
  by (simp add: RetryConfig_default_def net_not_found_def net_always_503_def example_url_def
        HttpResponse_default_def IsRetryable_def Let_def)

text \<open>
  C6 as stated takes the parsed header whenever it is present and parses. A \<open>429\<close> response
  with the header \<open>Retry-After: 0\<close> parses to zero seconds, so the claimed wait is
  \<open>min(10000, 0) = 0\<close>; the program falls back to the exponential backoff and sleeps 100 ms.
\<close>

theorem wait_ms_retry_after_zero:
  "stoi ''0'' = Some 0
   \<and> claimed_wait_ms RetryConfig_default 0 (ExecuteHttpGet (Row (Some 429) None None (Some ''0''))) = 0
   \<and> wait_ms RetryConfig_default 0 (ExecuteHttpGet (Row (Some 429) None None (Some ''0''))) = 100
   \<and> snd (Fetch (net_429_then_ok ''0'') example_url RetryConfig_default) = [100]"
  by (simp add: claimed_wait_ms_def wait_ms_def ParseRetryAfter_def stoi_def is_space_def is_digit_def
        digits_val_def digit_val_def INT_MIN_def INT_MAX_def int32_wrap_def exp_backoff_def double_to_int_def
        trunc_to_int_def RetryConfig_default_def HttpResponse_default_def Let_def
        Fetch_def Fetch_loop.simps net_429_then_ok_def IsRetryable_def)

lemma Fetch_loop_reaches:
  assumes "0 \<le> attempt" and "nat attempt \<le> a" and "int a < max_retries config"
    and "\<forall>k. nat attempt \<le> k \<and> k \<le> a \<longrightarrow> IsRetryable (status_code (ExecuteHttpGet (net k)))"
  shows "length sleeps + (a + 1 - nat attempt) \<le> length (snd (Fetch_loop net url config attempt sleeps))"
  using assms
proof (induction net url config attempt sleeps rule: Fetch_loop.induct)
  case (1 net url config attempt sleeps)
  let ?r = "ExecuteHttpGet (net (nat attempt))"
  from "1.prems" have lt: "attempt < max_retries config" by simp
  from "1.prems" have retr: "IsRetryable (status_code ?r)" by simp
  then have ns: "\<not> success ?r" using ExecuteHttpGet_success by blast
  from lt retr have unf: "Fetch_loop net url config attempt sleeps =
      Fetch_loop net url config (attempt + 1) (sleeps @ [wait_ms config attempt ?r])"
    by (subst Fetch_loop_unfold) (simp_all add: Let_def)
  show ?case
  proof (cases "nat attempt = a")
    case True
    from Fetch_loop_sleeps [of "attempt + 1" net url config "sleeps @ [wait_ms config attempt ?r]"]
      "1.prems"(1)
    have "length (sleeps @ [wait_ms config attempt ?r])
            \<le> length (snd (Fetch_loop net url config (attempt + 1) (sleeps @ [wait_ms config attempt ?r])))"
      by auto
    with unf True show ?thesis by simp
  next
    case False
    with "1.prems" have le: "nat (attempt + 1) \<le> a" by simp
    have "length (sleeps @ [wait_ms config attempt ?r]) + (a + 1 - nat (attempt + 1))
            \<le> length (snd (Fetch_loop net url config (attempt + 1) (sleeps @ [wait_ms config attempt ?r])))"
    proof (rule "1.IH" [OF _ refl ns])
      show "attempt \<le> max_retries config" using lt by simp
      show "\<not> \<not> IsRetryable (status_code ?r)" using retr by simp
      show "\<not> max_retries config \<le> attempt" using lt by simp
      show "0 \<le> attempt + 1" using "1.prems" by simp
      show "nat (attempt + 1) \<le> a" by (rule le)
      show "int a < max_retries config" using "1.prems" by simp
      show "\<forall>k. nat (attempt + 1) \<le> k \<and> k \<le> a \<longrightarrow> IsRetryable (status_code (ExecuteHttpGet (net k)))"
      proof (intro allI impI)
        fix k assume "nat (attempt + 1) \<le> k \<and> k \<le> a"
        with "1.prems"(1) have "nat attempt \<le> k \<and> k \<le> a" by linarith
        with "1.prems"(4) show "IsRetryable (status_code (ExecuteHttpGet (net k)))" by blast
      qed
    qed
    with unf le "1.prems"(1) show ?thesis by (simp add: nat_add_distrib)
  qed
qed

lemma Fetch_sleep_of_attempt:
  assumes "int a < max_retries config"
    and "\<forall>k \<le> a. IsRetryable (status_code (ExecuteHttpGet (net k)))"
  shows "a < length (snd (Fetch net url config))
         \<and> snd (Fetch net url config) ! a = wait_ms config (int a) (ExecuteHttpGet (net a))"
proof -
  let ?w = "\<lambda>i. wait_ms config (int i) (ExecuteHttpGet (net i))"
  from Fetch_loop_sleeps [of 0 net url config "[]"]
  obtain n where n: "snd (Fetch net url config) = map ?w [0 ..< n]"
    by (auto simp: Fetch_def)
  from Fetch_loop_reaches [of 0 a config net "[]" url] assms
  have "a + 1 \<le> length (snd (Fetch net url config))" by (simp add: Fetch_def)
  with n have "a < n" by simp
  with n show ?thesis by simp
qed

lemma trunc_to_int_of_int: "trunc_to_int (of_int z) = z"
  by (simp add: trunc_to_int_def)

lemma exp_backoff_exact:
  assumes "backoff_multiplier config = of_int m" and "0 \<le> m"
    and "0 < initial_backoff_ms config" and "initial_backoff_ms config * m ^ a \<le> INT_MAX"
  shows "exp_backoff config (int a) = initial_backoff_ms config * m ^ a"
proof -
  have "(of_int (initial_backoff_ms config) :: rat) * of_int m ^ a
          = of_int (initial_backoff_ms config * m ^ a)" by simp
  moreover from assms(2,3) have "0 \<le> initial_backoff_ms config * m ^ a" by simp
  then have "INT_MIN \<le> initial_backoff_ms config * m ^ a" by (simp add: INT_MIN_def)
  ultimately show ?thesis
    using assms(1,4)
    by (simp add: exp_backoff_def double_to_int_def trunc_to_int_of_int Let_def del: of_int_mult of_int_power)
qed

text \<open>
  Outside the 32-bit range the two computations overflow: a header of 4294968 seconds
  wraps to 704 ms, and the default backoff at attempt 25 (\<open>100 * 2^25\<close>) casts to \<open>INT_MIN\<close>.
\<close>

lemma overflow_examples:
  "ParseRetryAfter ''4294968'' = 704"
  "exp_backoff RetryConfig_default 25 = INT_MIN"
  by (simp_all add: ParseRetryAfter_def stoi_def is_space_def is_digit_def digits_val_def
        digit_val_def INT_MIN_def INT_MAX_def int32_wrap_def exp_backoff_def double_to_int_def
        trunc_to_int_def RetryConfig_default_def Let_def)

text \<open>
  C6, amended: every retryable failed attempt \<open>a\<close> (0-based) that is followed by another
  attempt, that is, with \<open>a < max_retries\<close> and all attempts up to \<open>a\<close> failing with a
  retryable status, is followed by a sleep, and that sleep is \<open>min(max_backoff_ms, W)\<close>.
  Here \<open>W\<close> is \<open>1000\<close> times the leading integer \<open>s\<close> of the retry-after header (read as
  \<open>std::stoi\<close> does) when the status is \<open>429\<close>, the header is present and parses, and
  \<open>s > 0\<close>; and \<open>W = initial_backoff_ms * backoff_multiplier^a\<close> otherwise: when the header
  is absent, does not parse, or parses to \<open>s \<le> 0\<close>. This is stated where the 32-bit
  arithmetic of the code does not overflow: for a header value with \<open>|s| \<le> 2147483\<close>, and
  for a configuration with an integer multiplier \<open>\<ge> 0\<close>, \<open>initial_backoff_ms \<ge> 1\<close> and
  \<open>initial_backoff_ms * backoff_multiplier^a \<le> 2^31 - 1\<close>.
\<close>

theorem Fetch_sleep_times:
  assumes "int a < max_retries config"
    and "\<forall>k \<le> a. IsRetryable (status_code (ExecuteHttpGet (net k)))"
    and "backoff_multiplier config = of_int m" and "0 \<le> m"
    and "0 < initial_backoff_ms config" and "initial_backoff_ms config * m ^ a \<le> INT_MAX"
    and "\<forall>s. status_code (ExecuteHttpGet (net a)) = 429
              \<and> stoi (retry_after (ExecuteHttpGet (net a))) = Some s
            \<longrightarrow> - 2147483 \<le> s \<and> s \<le> 2147483"
  shows "a < length (snd (Fetch net url config))
         \<and> snd (Fetch net url config) ! a =
             min (max_backoff_ms config)
               (case (if status_code (ExecuteHttpGet (net a)) = 429
                         \<and> retry_after (ExecuteHttpGet (net a)) \<noteq> []
                      then stoi (retry_after (ExecuteHttpGet (net a))) else None) of
                  Some s \<Rightarrow> if 0 < s then s * 1000 else initial_backoff_ms config * m ^ a
                | None \<Rightarrow> initial_backoff_ms config * m ^ a)"
proof -
  let ?r = "ExecuteHttpGet (net a)"
  let ?b = "initial_backoff_ms config * m ^ a"
  note sl = Fetch_sleep_of_attempt [OF assms(1,2), of url]
  from exp_backoff_exact [OF assms(3-6)] have eb: "exp_backoff config (int a) = ?b" .
  have "wait_ms config (int a) ?r =
          min (max_backoff_ms config)
            (case (if status_code ?r = 429 \<and> retry_after ?r \<noteq> [] then stoi (retry_after ?r) else None) of
               Some s \<Rightarrow> if 0 < s then s * 1000 else ?b
             | None \<Rightarrow> ?b)"
  proof (cases "status_code ?r = 429 \<and> retry_after ?r \<noteq> []")
    case False
    then show ?thesis by (auto simp: wait_ms_def eb Let_def min.commute)
  next
    case hdr: True
    show ?thesis
    proof (cases "stoi (retry_after ?r)")
      case None
      with hdr show ?thesis
        by (simp add: wait_ms_def eb ParseRetryAfter_def Let_def min.commute)
    next
      case (Some s)
      with hdr assms(7) have "- 2147483 \<le> s" "s \<le> 2147483" by simp_all
      from ParseRetryAfter_seconds [OF Some this]
      have "ParseRetryAfter (retry_after ?r) = s * 1000" .
      with hdr Some show ?thesis
        by (simp add: wait_ms_def eb Let_def min.commute)
    qed
  qed
  with sl show ?thesis by simp
qed

theorem Fetch_sleep_times_witness:
  "int 0 < max_retries RetryConfig_default
   \<and> IsRetryable (status_code (ExecuteHttpGet (net_429_then_ok ''5'' 0)))
   \<and> backoff_multiplier RetryConfig_default = of_int 2
   \<and> initial_backoff_ms RetryConfig_default * 2 ^ 0 \<le> INT_MAX
   \<and> stoi (retry_after (ExecuteHttpGet (net_429_then_ok ''5'' 0))) = Some 5
   \<and> 0 < length (snd (Fetch (net_429_then_ok ''5'') example_url RetryConfig_default))
   \<and> snd (Fetch (net_429_then_ok ''5'') example_url RetryConfig_default) ! 0 = 5000
   \<and> int 2 < max_retries RetryConfig_default
   \<and> IsRetryable (status_code (ExecuteHttpGet (net_always_503 2)))
   \<and> initial_backoff_ms RetryConfig_default * 2 ^ 2 \<le> INT_MAX
   \<and> 2 < length (snd (Fetch net_always_503 example_url RetryConfig_default))
   \<and> snd (Fetch net_always_503 example_url RetryConfig_default) ! 2 = 400"
proof -
  have st: "stoi ''5'' = Some 5"
    by (simp add: stoi_def is_space_def is_digit_def digits_val_def digit_val_def
          INT_MIN_def INT_MAX_def Let_def)
  have r5: "ExecuteHttpGet (net_429_then_ok ''5'' 0)
              = HttpResponse_default\<lparr>status_code := 429, retry_after := ''5''\<rparr>"
    by (simp add: net_429_then_ok_def HttpResponse_default_def Let_def)
  have r503: "ExecuteHttpGet (net_always_503 k) = HttpResponse_default\<lparr>status_code := 503\<rparr>" for k
    by (simp add: net_always_503_def HttpResponse_default_def Let_def)
  have cfg: "max_retries RetryConfig_default = 3" "backoff_multiplier RetryConfig_default = of_int 2"
    "initial_backoff_ms RetryConfig_default = 100" "max_backoff_ms RetryConfig_default = 10000"
    by (simp_all add: RetryConfig_default_def)
  from Fetch_sleep_times [of 0 RetryConfig_default "net_429_then_ok ''5''" 2 example_url]
  have a: "0 < length (snd (Fetch (net_429_then_ok ''5'') example_url RetryConfig_default))
      \<and> snd (Fetch (net_429_then_ok ''5'') example_url RetryConfig_default) ! 0 = 5000"
    by (simp add: r5 cfg st IsRetryable_def INT_MAX_def HttpResponse_default_def)
  from Fetch_sleep_times [of 2 RetryConfig_default net_always_503 2 example_url]
  have b: "2 < length (snd (Fetch net_always_503 example_url RetryConfig_default))
      \<and> snd (Fetch net_always_503 example_url RetryConfig_default) ! 2 = 400"
    by (simp add: r503 cfg IsRetryable_def INT_MAX_def HttpResponse_default_def)
  from a b st show ?thesis
    by (simp add: r5 r503 cfg IsRetryable_def INT_MAX_def HttpResponse_default_def)
qed

section \<open>The derived \<open>site\<close> field\<close>

lemma find_first_Some:
  "find_first pat s = Some i \<Longrightarrow>
     i + length pat \<le> length s \<and> prefix pat (drop i s) \<and> (\<forall>j<i. \<not> prefix pat (drop j s))"
proof (induction s arbitrary: i)
  case Nil
  then show ?case by (simp split: if_splits)
next
  case (Cons c cs)
  show ?case
  proof (cases "prefix pat (c # cs)")
    case True
    with Cons.prems have "i = 0" by simp
    with True prefix_length_le [OF True] show ?thesis by simp
  next
    case False
    with Cons.prems obtain i' where i': "find_first pat cs = Some i'" and i: "i = Suc i'"
      by auto
    from Cons.IH [OF i'] have ih: "i' + length pat \<le> length cs" "prefix pat (drop i' cs)"
      "\<forall>j<i'. \<not> prefix pat (drop j cs)" by simp_all
    have "\<not> prefix pat (drop j (c # cs))" if "j < i" for j
    proof (cases j)
      case 0
      with False show ?thesis by simp
    next
      case (Suc j')
      with that i ih(3) show ?thesis by simp
    qed
    with ih i show ?thesis by simp
  qed
qed

lemma find_first_None:
  "find_first pat s = None \<Longrightarrow> \<not> prefix pat (drop j s)"
proof (induction s arbitrary: j)
  case Nil
  then show ?case by (simp split: if_splits)
next
  case (Cons c cs)
  from Cons.prems have np: "\<not> prefix pat (c # cs)" and rec: "find_first pat cs = None"
    by (simp_all split: if_splits)
  show ?case
  proof (cases j)
    case 0
    with np show ?thesis by simp
  next
    case (Suc j')
    with Cons.IH [OF rec, of j'] show ?thesis by simp
  qed
qed

lemma find_first_char:
  "find_first [c] s = (if c \<in> set s then Some (length (takeWhile (\<lambda>x. x \<noteq> c) s)) else None)"
  by (induction s) auto

lemma ExtractDomain_eq:
  "ExtractDomain url =
     Some (takeWhile (\<lambda>c. c \<noteq> CHR ''/'')
             (drop (case find_first ''://'' url of Some p \<Rightarrow> p + 3 | None \<Rightarrow> 0) url))"
proof -
  define start where "start = (case find_first ''://'' url of Some p \<Rightarrow> p + 3 | None \<Rightarrow> 0)"
  have start_le: "start \<le> length url"
  proof (cases "find_first ''://'' url")
    case None
    then show ?thesis by (simp add: start_def)
  next
    case (Some p)
    from find_first_Some [OF Some] have "p + 3 \<le> length url" by simp
    with Some show ?thesis by (simp add: start_def)
  qed
  have pe: "(case str_find url ''://'' 0 of Some p \<Rightarrow> p + 3 | None \<Rightarrow> 0) = start"
    by (simp add: str_find_def start_def split: option.splits)
  let ?rest = "drop start url"
  have "substr url start ((case str_find url ''/'' start of Some e \<Rightarrow> e | None \<Rightarrow> length url) - start)
        = Some (takeWhile (\<lambda>c. c \<noteq> CHR ''/'') ?rest)"
  proof (cases "CHR ''/'' \<in> set ?rest")
    case True
    with start_le have "str_find url ''/'' start = Some (length (takeWhile (\<lambda>x. x \<noteq> CHR ''/'') ?rest) + start)"
      by (simp add: str_find_def find_first_char)
    with start_le show ?thesis by (simp add: substr_def takeWhile_eq_take [symmetric])
  next
    case False
    with start_le have none: "str_find url ''/'' start = None"
      by (simp add: str_find_def find_first_char)
    from False have tw: "takeWhile (\<lambda>c. c \<noteq> CHR ''/'') ?rest = ?rest"
      by auto
    from start_le none show ?thesis by (simp add: substr_def tw)
  qed
  then show ?thesis
    unfolding ExtractDomain_def Let_def pe start_def .
qed

lemma make_result_site:
  "make_result item = Inr r \<Longrightarrow> site_derived r"
  by (auto simp: make_result_def site_derived_def Let_def split: option.splits)

lemma make_result_total: "\<exists>r. make_result item = Inr r"
  by (simp add: make_result_def Let_def ExtractDomain_eq)

lemma push_items_site:
  "push_items items rs cap = Inr rs' \<Longrightarrow> list_all site_derived rs \<Longrightarrow> list_all site_derived rs'"
proof (induction items arbitrary: rs)
  case Nil
  then show ?case by simp
next
  case (Cons item rest)
  show ?case
  proof (cases "length rs \<ge> cap")
    case True
    with Cons.prems show ?thesis by simp
  next
    case False
    with Cons.prems obtain r where r: "make_result item = Inr r"
      and rec: "push_items rest (rs @ [r]) cap = Inr rs'"
      by (auto split: sum.splits)
    from make_result_site [OF r] Cons.prems(2) have "list_all site_derived (rs @ [r])" by simp
    from Cons.IH [OF rec this] show ?thesis .
  qed
qed

lemma Parse_site:
  assumes "ParseGoogleSearchResponse rd b state bind_data = Inr (nxt, state2)"
    and "list_all site_derived (results state)"
  shows "list_all site_derived (results state2)"
  using assms
  by (auto simp: ParseGoogleSearchResponse_def dest: push_items_site
           split: option.splits sum.splits if_splits)

lemma fetch_page_site:
  assumes "fetch_page env bind_data k start sf u state = Inr (nxt, state2)"
    and "list_all site_derived (results state)"
  shows "list_all site_derived (results state2)"
  using assms unfolding fetch_page_def Let_def
  by (auto split: if_splits dest: Parse_site)

lemma per_site_body_site:
  assumes "per_site_body env bind_data k state = Inr (go, state')"
    and "list_all site_derived (results state)"
  shows "list_all site_derived (results state')"
proof (cases go)
  case True
  with assms(1) obtain idx nxt state2 where
      fp: "fetch_page env bind_data k (next_start (site_states state ! idx))
                (site_includes bind_data ! idx) False (state\<lparr>current_site_idx := idx\<rparr>) = Inr (nxt, state2)"
    and st': "state' = state2\<lparr>site_states := (site_states state2)[idx := advance_site (site_states state ! idx) nxt],
                      current_site_idx := (idx + 1) mod length (site_includes bind_data)\<rparr>"
    by (auto elim: per_site_body_continues)
  from fetch_page_site [OF fp] assms(2) st' show ?thesis by simp
next
  case False
  with assms(1) have "results state' = results state"
    by (auto simp: per_site_body_def Let_def split: if_splits option.splits sum.splits)
  with assms(2) show ?thesis by simp
qed

lemma single_body_site:
  assumes "single_body env bind_data has_sites k state = Inr state'"
    and "list_all site_derived (results state)"
  shows "list_all site_derived (results state')"
proof -
  from assms(1) obtain nxt state2 where
      fp: "fetch_page env bind_data k (next_start_single state) [] has_sites state = Inr (nxt, state2)"
    and st': "state' = advance_single state2 (next_start_single state) nxt"
    by (rule single_body_continues)
  from st' have "results state' = results state2" by (simp add: advance_single_def)
  with fetch_page_site [OF fp assms(2)] show ?thesis by simp
qed

lemma per_site_loop_site:
  "per_site_loop env bind_data k state = Inr state' \<Longrightarrow> list_all site_derived (results state)
     \<Longrightarrow> list_all site_derived (results state')"
proof (induction env bind_data k state rule: per_site_loop.induct)
  case (1 env bind_data k state)
  note unf = per_site_loop.simps [of env bind_data k state]
  show ?case
  proof (cases "length (results state) < max_results bind_data")
    case False
    with "1.prems" unf show ?thesis by simp
  next
    case True
    with "1.prems"(1) unf obtain go st where b: "per_site_body env bind_data k state = Inr (go, st)"
      by (auto split: sum.splits)
    from per_site_body_site [OF b "1.prems"(2)] have st: "list_all site_derived (results st)" .
    show ?thesis
    proof (cases go)
      case True
      with \<open>length (results state) < max_results bind_data\<close> b "1.prems"(1) unf
      have "per_site_loop env bind_data (k + 1) st = Inr state'" by simp
      from "1.IH" [OF \<open>length (results state) < max_results bind_data\<close> b refl True this st]
      show ?thesis .
    next
      case False
      with \<open>length (results state) < max_results bind_data\<close> b "1.prems"(1) unf
      have "state' = st" by simp
      with st show ?thesis by simp
    qed
  qed
qed

lemma single_loop_site:
  "single_loop env bind_data has_sites k state = Inr state' \<Longrightarrow> list_all site_derived (results state)
     \<Longrightarrow> list_all site_derived (results state')"
proof (induction env bind_data has_sites k state rule: single_loop.induct)
  case (1 env bind_data has_sites k state)
  note unf = single_loop.simps [of env bind_data has_sites k state]
  show ?case
  proof (cases "length (results state) < max_results bind_data \<and> \<not> fetch_complete state")
    case False
    with "1.prems" unf show ?thesis by auto
  next
    case True
    with "1.prems"(1) unf obtain st where b: "single_body env bind_data has_sites k state = Inr st"
      by (auto split: sum.splits)
    from single_body_site [OF b "1.prems"(2)] have st: "list_all site_derived (results st)" .
    from True b "1.prems"(1) unf
    have "single_loop env bind_data has_sites (k + 1) st = Inr state'" by simp
    from "1.IH" [OF True b this st] show ?thesis .
  qed
qed

lemma push_items_total: "\<exists>rs'. push_items items rs cap = Inr rs'"
proof (induction items arbitrary: rs)
  case Nil
  show ?case by simp
next
  case (Cons item rest)
  from make_result_total obtain r where r: "make_result item = Inr r" by blast
  from Cons [of "rs @ [r]"] r show ?case by simp
qed

lemma Parse_no_OutOfRange: "ParseGoogleSearchResponse rd b state bind_data \<noteq> Inl OutOfRange"
proof -
  have "push_items items (results state) (max_results bind_data) \<noteq> Inl OutOfRange" for items
    using push_items_total [of items "results state" "max_results bind_data"] by auto
  then show ?thesis
    by (auto simp: ParseGoogleSearchResponse_def split: option.splits sum.splits if_splits)
qed

lemma fetch_page_no_OutOfRange: "fetch_page env bind_data k start sf u state \<noteq> Inl OutOfRange"
  using Parse_no_OutOfRange
  by (auto simp: fetch_page_def fetch_failure_def Let_def)

lemma per_site_body_no_OutOfRange: "per_site_body env bind_data k state \<noteq> Inl OutOfRange"
  using fetch_page_no_OutOfRange
  by (auto simp: per_site_body_def Let_def split: option.splits sum.splits)

lemma single_body_no_OutOfRange: "single_body env bind_data has_sites k state \<noteq> Inl OutOfRange"
  using fetch_page_no_OutOfRange
  by (auto simp: single_body_def split: sum.splits)

lemma per_site_loop_no_OutOfRange: "per_site_loop env bind_data k state \<noteq> Inl OutOfRange"
proof (induction env bind_data k state rule: per_site_loop.induct)
  case (1 env bind_data k state)
  note unf = per_site_loop.simps [of env bind_data k state]
  show ?case
  proof (cases "length (results state) < max_results bind_data")
    case False
    with unf show ?thesis by simp
  next
    case True
    show ?thesis
    proof (cases "per_site_body env bind_data k state")
      case (Inl e)
      with per_site_body_no_OutOfRange [of env bind_data k state] have "e \<noteq> OutOfRange" by auto
      with unf True Inl show ?thesis by simp
    next
      case (Inr p)
      obtain go st where p: "p = (go, st)" by (cases p)
      show ?thesis
      proof (cases go)
        case go: True
        from "1.IH" [OF True _ refl go, of st] Inr p
        have "per_site_loop env bind_data (k + 1) st \<noteq> Inl OutOfRange" by simp
        with unf True Inr p go show ?thesis by simp
      next
        case False
        with unf True Inr p show ?thesis by simp
      qed
    qed
  qed
qed

lemma single_loop_no_OutOfRange: "single_loop env bind_data has_sites k state \<noteq> Inl OutOfRange"
proof (induction env bind_data has_sites k state rule: single_loop.induct)
  case (1 env bind_data has_sites k state)
  note unf = single_loop.simps [of env bind_data has_sites k state]
  show ?case
  proof (cases "length (results state) < max_results bind_data \<and> \<not> fetch_complete state")
    case False
    with unf show ?thesis by auto
  next
    case True
    show ?thesis
    proof (cases "single_body env bind_data has_sites k state")
      case (Inl e)
      with single_body_no_OutOfRange [of env bind_data has_sites k state] have "e \<noteq> OutOfRange" by auto
      with unf True Inl show ?thesis by simp
    next
      case (Inr st)
      from "1.IH" [OF True Inr] have "single_loop env bind_data has_sites (k + 1) st \<noteq> Inl OutOfRange" .
      with unf True Inr show ?thesis by simp
    qed
  qed
qed

lemma fetched_site_derived:
  assumes "FetchGoogleSearchResults env GoogleSearchGlobalState_default bind_data = Inr state'"
    and "r \<in> set (results state')"
  shows "site_derived r"
proof -
  have init: "list_all site_derived (results GoogleSearchGlobalState_default)"
    by (simp add: GoogleSearchGlobalState_default_def)
  have "list_all site_derived (results state')"
  proof (cases "use_per_site_queries bind_data")
    case True
    with assms(1) have "per_site_loop env bind_data 0
          (GoogleSearchGlobalState_default\<lparr>site_states :=
             resize_states (length (site_includes bind_data)) (site_states GoogleSearchGlobalState_default)\<rparr>)
          = Inr state'"
      by (simp add: FetchGoogleSearchResults_def)
    from per_site_loop_site [OF this] init show ?thesis by simp
  next
    case False
    with assms(1) have "single_loop env bind_data (site_includes bind_data \<noteq> []) 0
          GoogleSearchGlobalState_default = Inr state'"
      by (simp add: FetchGoogleSearchResults_def)
    from single_loop_site [OF this init] show ?thesis .
  qed
  with assms(2) show ?thesis by (simp add: list_all_iff)
qed

text \<open>
  C10: the site derivation never fails. For every string, \<open>ExtractDomain\<close> returns the
  part that starts just after the first \<open>://\<close> (position \<open>p\<close> of the first occurrence plus
  3), or at position 0 when \<open>://\<close> does not occur, and that ends before the next \<open>/\<close> or
  at the end of the string; nothing else is removed, so a port or userinfo stays, and the
  empty string gives the empty string. Every item of a page becomes a record whose \<open>link\<close>
  is the item's \<open>link\<close> member (empty when absent) and whose \<open>site\<close> is that part of the
  link; the loop over the items always returns, a fetch never fails because of the site
  derivation, and every record of a completed fetch (started, as \<open>GoogleSearchInitGlobal\<close>
  does, from a fresh state) carries that part of its link as \<open>site\<close>.
\<close>

theorem fetched_site_is_host_part_of_link:
  "ExtractDomain url =
     Some (takeWhile (\<lambda>c. c \<noteq> CHR ''/'')
             (drop (case find_first ''://'' url of Some p \<Rightarrow> p + 3 | None \<Rightarrow> 0) url))
   \<and> (\<forall>p. find_first ''://'' url = Some p \<longrightarrow>
         prefix ''://'' (drop p url) \<and> (\<forall>j<p. \<not> prefix ''://'' (drop j url)))
   \<and> (find_first ''://'' url = None \<longrightarrow>
         (\<forall>j. \<not> prefix ''://'' (drop j url))
         \<and> ExtractDomain url = Some (takeWhile (\<lambda>c. c \<noteq> CHR ''/'') url))
   \<and> ExtractDomain [] = Some []
   \<and> (\<exists>r. make_result item = Inr r \<and> link r = GetJsonString item ''link''
            \<and> ExtractDomain (link r) = Some (site r))
   \<and> (\<exists>rs'. push_items items rs cap = Inr rs')
   \<and> FetchGoogleSearchResults env GoogleSearchGlobalState_default bind_data \<noteq> Inl OutOfRange
   \<and> (FetchGoogleSearchResults env GoogleSearchGlobalState_default bind_data = Inr state'
        \<and> r' \<in> set (results state') \<longrightarrow>
        site r' =
          takeWhile (\<lambda>c. c \<noteq> CHR ''/'')
            (drop (case find_first ''://'' (link r') of Some p \<Rightarrow> p + 3 | None \<Rightarrow> 0) (link r')))"
proof (intro conjI allI impI)
  show "ExtractDomain url =
     Some (takeWhile (\<lambda>c. c \<noteq> CHR ''/'')
             (drop (case find_first ''://'' url of Some p \<Rightarrow> p + 3 | None \<Rightarrow> 0) url))"
    by (rule ExtractDomain_eq)
next
  fix p assume p: "find_first ''://'' url = Some p"
  from find_first_Some [OF p] show "prefix ''://'' (drop p url)" by simp
  fix j assume "j < p"
  with find_first_Some [OF p] show "\<not> prefix ''://'' (drop j url)" by simp
next
  fix j assume "find_first ''://'' url = None"
  then show "\<not> prefix ''://'' (drop j url)" by (rule find_first_None)
next
  assume "find_first ''://'' url = None"
  then show "ExtractDomain url = Some (takeWhile (\<lambda>c. c \<noteq> CHR ''/'') url)"
    by (simp add: ExtractDomain_eq)
next
  show "ExtractDomain [] = Some []" by (simp add: ExtractDomain_eq)
next
  from make_result_total obtain r where r: "make_result item = Inr r" by blast
  from make_result_site [OF r] have "ExtractDomain (link r) = Some (site r)"
    by (simp add: site_derived_def)
  moreover from r have "link r = GetJsonString item ''link''"
    by (auto simp: make_result_def Let_def split: option.splits)
  ultimately show "\<exists>r. make_result item = Inr r \<and> link r = GetJsonString item ''link''
            \<and> ExtractDomain (link r) = Some (site r)"
    using r by blast
next
  show "\<exists>rs'. push_items items rs cap = Inr rs'" by (rule push_items_total)
next
  show "FetchGoogleSearchResults env GoogleSearchGlobalState_default bind_data \<noteq> Inl OutOfRange"
    using per_site_loop_no_OutOfRange single_loop_no_OutOfRange
    by (simp add: FetchGoogleSearchResults_def Let_def)
next
  assume a: "FetchGoogleSearchResults env GoogleSearchGlobalState_default bind_data = Inr state'
        \<and> r' \<in> set (results state')"
  then have "site_derived r'" using fetched_site_derived by blast
  then show "site r' =
          takeWhile (\<lambda>c. c \<noteq> CHR ''/'')
            (drop (case find_first ''://'' (link r') of Some p \<Rightarrow> p + 3 | None \<Rightarrow> 0) (link r'))"
    by (simp add: site_derived_def ExtractDomain_eq)
qed


lemma example_fetch_three_links:
  "FetchGoogleSearchResults env_three_links GoogleSearchGlobalState_default example_bind
     = Inr state_three_links"
  by (simp add: FetchGoogleSearchResults_def use_per_site_queries_def example_bind_def
        GoogleSearchBindData_default_def GoogleSearchGlobalState_default_def single_loop.simps
        single_body_def fetch_page_def env_three_links_def Fetch_def Fetch_loop.simps
        RetryConfig_default_def HttpResponse_default_def Let_def
        ParseGoogleSearchResponse_def doc_three_links_def example_item_def item_no_scheme_def
        item_no_link_def make_result_def GetJsonString_def ExtractDomain_eq advance_single_def
        state_three_links_def example_result_def result_no_scheme_def result_no_link_def)

theorem fetched_site_is_host_part_of_link_witness:
  "FetchGoogleSearchResults env_three_links GoogleSearchGlobalState_default example_bind
     = Inr state_three_links
   \<and> results state_three_links = [example_result, result_no_scheme, result_no_link]
   \<and> link example_result = ''https://user@host.example:8080/a/b''
   \<and> find_first ''://'' (link example_result) = Some 5
   \<and> site example_result = ''user@host.example:8080''
   \<and> link result_no_scheme = ''example.org/page''
   \<and> find_first ''://'' (link result_no_scheme) = None
   \<and> ExtractDomain ''example.org/page'' = Some ''example.org''
   \<and> site result_no_scheme = ''example.org''
   \<and> link result_no_link = [] \<and> site result_no_link = []
   \<and> make_result item_no_link = Inr result_no_link"
proof -
  note run = example_fetch_three_links
  have rs: "results state_three_links = [example_result, result_no_scheme, result_no_link]"
    by (simp add: state_three_links_def)
  have l1: "link example_result = ''https://user@host.example:8080/a/b''"
    and l2: "link result_no_scheme = ''example.org/page''"
    and l3: "link result_no_link = []"
    by (simp_all add: example_result_def result_no_scheme_def result_no_link_def)
  have f1: "find_first ''://'' ''https://user@host.example:8080/a/b'' = Some 5"
    and f2: "find_first ''://'' ''example.org/page'' = None"
    by simp_all
  note t = fetched_site_is_host_part_of_link
  from t [of "''example.org/page''" item_no_link "[]" "[]" 0 env_three_links example_bind
           state_three_links example_result] run rs l1 f1
  have s1: "site example_result = ''user@host.example:8080''"
    and e2: "ExtractDomain ''example.org/page'' = Some ''example.org''"
    using f2 by simp_all
  from t [of "[]" item_no_link "[]" "[]" 0 env_three_links example_bind
           state_three_links result_no_scheme] run rs l2 f2
  have s2: "site result_no_scheme = ''example.org''" by simp
  from t [of "[]" item_no_link "[]" "[]" 0 env_three_links example_bind
           state_three_links result_no_link] run rs l3
  have s3: "site result_no_link = []" by simp
  have m: "make_result item_no_link = Inr result_no_link"
    by (simp add: make_result_def item_no_link_def GetJsonString_def ExtractDomain_eq
          result_no_link_def Let_def)
  from run rs l1 l2 l3 f1 f2 s1 e2 s2 s3 m show ?thesis by simp
qed

section \<open>The URL builder and the relative date token\<close>

lemma nat_to_string_digits: "list_all is_alnum (nat_to_string n)"
proof (induction n rule: nat_to_string.induct)
  case (1 n)
  have d: "is_alnum (char_of (48 + k))" if "k < 10" for k :: nat
  proof -
    from that have "(48 + k) mod 256 = 48 + k" by simp
    with that show ?thesis by (simp add: is_alnum_def Let_def)
  qed
  show ?case
  proof (cases "n < 10")
    case True
    then show ?thesis by (subst nat_to_string.simps) (simp add: d)
  next
    case False
    with "1.IH" have "list_all is_alnum (nat_to_string (n div 10))" by simp
    moreover have "is_alnum (char_of (48 + n mod 10))" by (rule d) simp
    ultimately show ?thesis using False by (subst nat_to_string.simps) simp
  qed
qed

lemma UrlEncode_alnum: "list_all is_alnum s \<Longrightarrow> UrlEncode s = s"
  by (induction s) (simp_all add: UrlEncode_def)

lemma UrlEncode_token:
  assumes "0 \<le> n" and "is_alnum c"
  shows "UrlEncode (c # to_string n) = c # to_string n"
  using assms nat_to_string_digits [of "nat n"]
  by (intro UrlEncode_alnum) (simp add: to_string_def)

lemma div_trunc_pos: "0 \<le> a \<Longrightarrow> 0 < b \<Longrightarrow> div_trunc a b = a div b"
  by (cases "a = 0") (simp_all add: div_trunc_def)

lemma div_trunc_neg: "a < 0 \<Longrightarrow> 0 < b \<Longrightarrow> div_trunc a b = - ((- a) div b)"
  by (simp add: div_trunc_def)

lemma ceiling_div_7: "\<lceil>(of_int d :: rat) / 7\<rceil> = (d + 6) div 7"
proof -
  have "\<lceil>(of_int d :: rat) / of_int 7\<rceil> = - (- d div 7)" by (rule ceiling_divide_eq_div)
  also have "\<dots> = (d + 6) div 7" by linarith
  finally show ?thesis by simp
qed

lemma ceiling_div_30: "\<lceil>(of_int d :: rat) / 30\<rceil> = (d + 29) div 30"
proof -
  have "\<lceil>(of_int d :: rat) / of_int 30\<rceil> = - (- d div 30)" by (rule ceiling_divide_eq_div)
  also have "\<dots> = (d + 29) div 30" by linarith
  finally show ?thesis by simp
qed

lemma ceiling_div_365: "\<lceil>(of_int d :: rat) / 365\<rceil> = (d + 364) div 365"
proof -
  have "\<lceil>(of_int d :: rat) / of_int 365\<rceil> = - (- d div 365)" by (rule ceiling_divide_eq_div)
  also have "\<dots> = (d + 364) div 365" by linarith
  finally show ?thesis by simp
qed

lemma TimestampToDateRestrict_eq:
  "TimestampToDateRestrict now from_ts to_ts =
     (if diff_days_of now from_ts \<le> 0 then []
      else if diff_days_of now from_ts \<le> 7 then ''d'' @ to_string (diff_days_of now from_ts)
      else if diff_days_of now from_ts \<le> 31 then
        ''w'' @ to_string ((diff_days_of now from_ts + 6) div 7)
      else if diff_days_of now from_ts \<le> 365 then
        ''m'' @ to_string ((diff_days_of now from_ts + 29) div 30)
      else ''y'' @ to_string ((diff_days_of now from_ts + 364) div 365))"
  by (simp add: TimestampToDateRestrict_def Let_def div_trunc_pos)

lemma BuildGoogleSearchUrl_eq_iff:
  "BuildGoogleSearchUrl now1 bd start site_filter use_or_sites
     = BuildGoogleSearchUrl now2 bd start site_filter use_or_sites
   \<longleftrightarrow> date_restrict_param now1 bd = date_restrict_param now2 bd"
  by (simp add: BuildGoogleSearchUrl_def Let_def)

lemma date_restrict_param_eq:
  "date_restrict_param now bd =
     (if has_date_filter bd \<and> date_from bd \<noteq> 0 \<and> 0 < diff_days_of now (date_from bd) then
        ''&dateRestrict='' @ TimestampToDateRestrict now (date_from bd) (date_to bd)
      else [])"
proof (cases "has_date_filter bd \<and> date_from bd \<noteq> 0 \<and> 0 < diff_days_of now (date_from bd)")
  case False
  then show ?thesis
    by (auto simp: date_restrict_param_def TimestampToDateRestrict_def Let_def)
next
  case True
  let ?d = "diff_days_of now (date_from bd)"
  from True have pos: "0 < ?d" by simp
  have enc: "UrlEncode (TimestampToDateRestrict now (date_from bd) (date_to bd))
             = TimestampToDateRestrict now (date_from bd) (date_to bd)"
    unfolding TimestampToDateRestrict_def Let_def using pos
    by (auto simp: div_trunc_pos is_alnum_def
             intro!: UrlEncode_token [simplified] pos_imp_zdiv_nonneg_iff [THEN iffD2])
  have ne: "TimestampToDateRestrict now (date_from bd) (date_to bd) \<noteq> []"
    unfolding TimestampToDateRestrict_def Let_def using pos by auto
  from True enc ne show ?thesis by (simp add: date_restrict_param_def Let_def)
qed

text \<open>
  C8 as stated gives every lower bound that is not in the future a token. A lower bound at
  the epoch instant, which the absorber stores as the value \<open>0\<close>, lies 19675 whole days
  before the clock reading \<open>1700000000\<close>, so the claimed token is \<open>y54\<close>; the URL builder
  takes the value \<open>0\<close> for "no lower bound" and omits the parameter. A bound one hour
  before the clock reading is not in the future either, has \<open>d = 0\<close>, and gets no token.
\<close>

theorem date_restrict_omitted_for_epoch_bound:
  "GoogleSearchPushdownComplexFilter no_conversions example_bind [filter_date_ge_epoch]
     = Inr (bind_from_epoch, [filter_date_ge_epoch])
   \<and> diff_days_of 1700000000 (date_from bind_from_epoch) = 19675
   \<and> \<lceil>(of_int 19675 :: rat) / 365\<rceil> = 54
   \<and> date_restrict_param 1700000000 bind_from_epoch = []
   \<and> div_trunc (date_from bind_from_hour_ago) 1000000 < 1700000000
   \<and> diff_days_of 1700000000 (date_from bind_from_hour_ago) = 0
   \<and> date_restrict_param 1700000000 bind_from_hour_ago = []"
proof (intro conjI)
  show "GoogleSearchPushdownComplexFilter no_conversions example_bind [filter_date_ge_epoch]
     = Inr (bind_from_epoch, [filter_date_ge_epoch])"
    by (simp add: GoogleSearchPushdownComplexFilter_def absorb_filter_def filter_date_ge_epoch_def
          bind_from_epoch_def example_bind_def GoogleSearchBindData_default_def)
  show "diff_days_of 1700000000 (date_from bind_from_epoch) = 19675"
    by (simp add: bind_from_epoch_def example_bind_def GoogleSearchBindData_default_def
          diff_days_of_def div_trunc_def)
  show "\<lceil>(of_int 19675 :: rat) / 365\<rceil> = 54"
    using ceiling_div_365 [of 19675] by simp
  show "date_restrict_param 1700000000 bind_from_epoch = []"
    by (simp add: bind_from_epoch_def example_bind_def GoogleSearchBindData_default_def
          date_restrict_param_def)
  show "div_trunc (date_from bind_from_hour_ago) 1000000 < 1700000000"
    by (simp add: bind_from_hour_ago_def example_bind_def GoogleSearchBindData_default_def
          div_trunc_def)
  show d0: "diff_days_of 1700000000 (date_from bind_from_hour_ago) = 0"
    by (simp add: bind_from_hour_ago_def example_bind_def GoogleSearchBindData_default_def
          diff_days_of_def div_trunc_def)
  from d0 show "date_restrict_param 1700000000 bind_from_hour_ago = []"
    by (simp add: date_restrict_param_eq)
qed

text \<open>
  C8, amended: for a date lower bound whose stored value is not \<open>0\<close> (any instant but the
  epoch itself), let \<open>d\<close> be the elapsed time from the bound (cut to whole seconds) to "now"
  in whole days, truncated towards zero. If \<open>d \<le> 0\<close> (the bound is in the future, or less
  than one day in the past) no \<open>dateRestrict\<close> parameter is emitted; if \<open>1 \<le> d \<le> 7\<close> the
  token is \<open>d<d>\<close>; if \<open>8 \<le> d \<le> 31\<close> it is \<open>w<ceil(d/7)>\<close>; if \<open>32 \<le> d \<le> 365\<close> it is
  \<open>m<ceil(d/30)>\<close>; otherwise (\<open>d > 365\<close>) it is \<open>y<ceil(d/365)>\<close>. Without a date filter, or
  with the stored value \<open>0\<close>, the parameter is omitted.
\<close>

theorem date_restrict_param_cases:
  "date_restrict_param now bd =
     (if has_date_filter bd \<and> date_from bd \<noteq> 0 \<and> 0 < diff_days_of now (date_from bd) then
        ''&dateRestrict='' @
        (if diff_days_of now (date_from bd) \<le> 7 then ''d'' @ to_string (diff_days_of now (date_from bd))
         else if diff_days_of now (date_from bd) \<le> 31 then
           ''w'' @ to_string ((diff_days_of now (date_from bd) + 6) div 7)
         else if diff_days_of now (date_from bd) \<le> 365 then
           ''m'' @ to_string ((diff_days_of now (date_from bd) + 29) div 30)
         else ''y'' @ to_string ((diff_days_of now (date_from bd) + 364) div 365))
      else [])
   \<and> (d + 6) div 7 = \<lceil>(of_int d :: rat) / 7\<rceil>
   \<and> (d + 29) div 30 = \<lceil>(of_int d :: rat) / 30\<rceil>
   \<and> (d + 364) div 365 = \<lceil>(of_int d :: rat) / 365\<rceil>
   \<and> diff_days_of now from_ts =
       (if div_trunc from_ts 1000000 \<le> now then (now - div_trunc from_ts 1000000) div 86400
        else - ((div_trunc from_ts 1000000 - now) div 86400))"
proof (intro conjI)
  show "date_restrict_param now bd =
     (if has_date_filter bd \<and> date_from bd \<noteq> 0 \<and> 0 < diff_days_of now (date_from bd) then
        ''&dateRestrict='' @
        (if diff_days_of now (date_from bd) \<le> 7 then ''d'' @ to_string (diff_days_of now (date_from bd))
         else if diff_days_of now (date_from bd) \<le> 31 then
           ''w'' @ to_string ((diff_days_of now (date_from bd) + 6) div 7)
         else if diff_days_of now (date_from bd) \<le> 365 then
           ''m'' @ to_string ((diff_days_of now (date_from bd) + 29) div 30)
         else ''y'' @ to_string ((diff_days_of now (date_from bd) + 364) div 365))
      else [])"
    by (simp add: date_restrict_param_eq TimestampToDateRestrict_eq)
  show "(d + 6) div 7 = \<lceil>(of_int d :: rat) / 7\<rceil>" by (simp add: ceiling_div_7)
  show "(d + 29) div 30 = \<lceil>(of_int d :: rat) / 30\<rceil>" by (simp add: ceiling_div_30)
  show "(d + 364) div 365 = \<lceil>(of_int d :: rat) / 365\<rceil>" by (simp add: ceiling_div_365)
  show "diff_days_of now from_ts =
       (if div_trunc from_ts 1000000 \<le> now then (now - div_trunc from_ts 1000000) div 86400
        else - ((div_trunc from_ts 1000000 - now) div 86400))"
    by (simp add: diff_days_of_def Let_def div_trunc_pos div_trunc_neg)
qed

lemma example_diff_days:
  "diff_days_of 1700000000 (date_from bind_from_1699000000) = 11"
  "diff_days_of 1700000001 (date_from bind_from_1699000000) = 11"
  "diff_days_of 1699300000 (date_from bind_from_1699000000) = 3"
  by (simp_all add: bind_from_1699000000_def example_bind_def GoogleSearchBindData_default_def
        diff_days_of_def div_trunc_def)

lemma to_string_small: "to_string 2 = ''2''" "to_string 3 = ''3''"
  by code_simp+

theorem date_restrict_param_cases_witness:
  "has_date_filter bind_from_1699000000 \<and> date_from bind_from_1699000000 \<noteq> 0
   \<and> diff_days_of 1700000000 (date_from bind_from_1699000000) = 11
   \<and> date_restrict_param 1700000000 bind_from_1699000000 = ''&dateRestrict=w2''
   \<and> diff_days_of 1699300000 (date_from bind_from_1699000000) = 3
   \<and> date_restrict_param 1699300000 bind_from_1699000000 = ''&dateRestrict=d3''"
proof -
  have b: "has_date_filter bind_from_1699000000 \<and> date_from bind_from_1699000000 \<noteq> 0"
    by (simp add: bind_from_1699000000_def example_bind_def GoogleSearchBindData_default_def)
  from b example_diff_days to_string_small
    date_restrict_param_cases [of 1700000000 bind_from_1699000000 0 0]
    date_restrict_param_cases [of 1699300000 bind_from_1699000000 0 0]
  show ?thesis by simp
qed

text \<open>
  C4 as stated calls the URL builder a pure function of its four arguments. With a date
  lower bound it also reads the clock: the same request gives \<open>dateRestrict=d3\<close> at the
  clock reading \<open>1699300000\<close> and \<open>dateRestrict=w2\<close> at \<open>1700000000\<close>.
\<close>

theorem BuildGoogleSearchUrl_differs_with_clock:
  "BuildGoogleSearchUrl 1699300000 bind_from_1699000000 1 [] False
     \<noteq> BuildGoogleSearchUrl 1700000000 bind_from_1699000000 1 [] False"
proof -
  have b: "has_date_filter bind_from_1699000000 \<and> date_from bind_from_1699000000 \<noteq> 0"
    by (simp add: bind_from_1699000000_def example_bind_def GoogleSearchBindData_default_def)
  from b example_diff_days to_string_small
  have "date_restrict_param 1699300000 bind_from_1699000000 = ''&dateRestrict=d3''"
    and "date_restrict_param 1700000000 bind_from_1699000000 = ''&dateRestrict=w2''"
    by (simp_all add: date_restrict_param_eq TimestampToDateRestrict_eq)
  then show ?thesis by (simp add: BuildGoogleSearchUrl_eq_iff)
qed

text \<open>
  C4, amended: building a URL twice from the same request, start index, partition override
  and combine-sites flag yields the same string when the request carries no date lower
  bound (no date filter, or the stored lower bound is \<open>0\<close>), and also when the two clock
  readings lie the same whole number of days after the bound; the builder does no I/O and
  changes no state, its only other input is the clock.
\<close>

theorem BuildGoogleSearchUrl_repeatable:
  "(\<not> (has_date_filter bd \<and> date_from bd \<noteq> 0) \<longrightarrow>
      BuildGoogleSearchUrl now1 bd start site_filter use_or_sites
        = BuildGoogleSearchUrl now2 bd start site_filter use_or_sites)
   \<and> (diff_days_of now1 (date_from bd) = diff_days_of now2 (date_from bd) \<longrightarrow>
      BuildGoogleSearchUrl now1 bd start site_filter use_or_sites
        = BuildGoogleSearchUrl now2 bd start site_filter use_or_sites)"
proof (intro conjI impI)
  assume "\<not> (has_date_filter bd \<and> date_from bd \<noteq> 0)"
  then have "date_restrict_param now1 bd = date_restrict_param now2 bd"
    by (auto simp: date_restrict_param_def)
  then show "BuildGoogleSearchUrl now1 bd start site_filter use_or_sites
        = BuildGoogleSearchUrl now2 bd start site_filter use_or_sites"
    by (simp add: BuildGoogleSearchUrl_eq_iff)
next
  assume "diff_days_of now1 (date_from bd) = diff_days_of now2 (date_from bd)"
  then have "date_restrict_param now1 bd = date_restrict_param now2 bd"
    by (simp add: date_restrict_param_def TimestampToDateRestrict_def)
  then show "BuildGoogleSearchUrl now1 bd start site_filter use_or_sites
        = BuildGoogleSearchUrl now2 bd start site_filter use_or_sites"
    by (simp add: BuildGoogleSearchUrl_eq_iff)
qed

theorem BuildGoogleSearchUrl_repeatable_witness:
  "\<not> (has_date_filter example_bind \<and> date_from example_bind \<noteq> 0)
   \<and> BuildGoogleSearchUrl 1699300000 example_bind 1 [] False
       = BuildGoogleSearchUrl 1700000000 example_bind 1 [] False
   \<and> diff_days_of 1700000000 (date_from bind_from_1699000000)
       = diff_days_of 1700000001 (date_from bind_from_1699000000)
   \<and> BuildGoogleSearchUrl 1700000000 bind_from_1699000000 1 [] False
       = BuildGoogleSearchUrl 1700000001 bind_from_1699000000 1 [] False"
proof -
  have b: "\<not> (has_date_filter example_bind \<and> date_from example_bind \<noteq> 0)"
    by (simp add: example_bind_def GoogleSearchBindData_default_def)
  from b example_diff_days
    BuildGoogleSearchUrl_repeatable [of example_bind 1699300000 1 "[]" False 1700000000]
    BuildGoogleSearchUrl_repeatable [of bind_from_1699000000 1700000000 1 "[]" False 1700000001]
  show ?thesis by simp
qed


section \<open>The row cap\<close>




lemma absorb_function_flag:
  "absorb_function bd f = Some (bd', r) \<Longrightarrow> r \<and> is_site_predicate f \<and> max_results bd' = max_results bd"
  by (induction bd f rule: absorb_function.induct) (auto split: if_splits)

lemma absorb_function_None:
  "absorb_function bd f = None \<Longrightarrow> f = BoundFunction name args \<Longrightarrow> \<not> is_site_predicate f"
  by (induction bd f rule: absorb_function.induct) (auto split: if_splits)

lemma absorb_operator_flag:
  "absorb_operator bd f = Some (bd', r) \<Longrightarrow> r \<and> is_site_predicate f \<and> max_results bd' = max_results bd"
  by (induction bd f rule: absorb_operator.induct) (auto split: if_splits prod.splits)

lemma absorb_operator_None:
  "absorb_operator bd f = None \<Longrightarrow> f = BoundOperator t args \<Longrightarrow> \<not> is_site_predicate f"
  by (induction bd f rule: absorb_operator.induct) (auto split: if_splits prod.splits)

lemma absorb_comparison_flag:
  "absorb_comparison cv bd f = Inr (Some (bd', r)) \<Longrightarrow>
     r = is_site_predicate f \<and> max_results bd' = max_results bd"
proof (induction cv bd f rule: absorb_comparison.induct)
  case (1 cv bd t col v)
  then show ?case
    by (cases v) (auto split: if_splits sum.splits option.splits)
qed simp_all

lemma absorb_comparison_None:
  "absorb_comparison cv bd f = Inr None \<Longrightarrow> f = BoundComparison t l r \<Longrightarrow> \<not> is_site_predicate f"
proof (induction cv bd f rule: absorb_comparison.induct)
  case (1 cv bd t col v)
  then show ?case
    by (cases v) (auto split: if_splits sum.splits option.splits)
qed auto

lemma absorb_filter_flag:
  assumes "absorb_filter cv bd f = Inr (bd', r)"
  shows "r = is_site_predicate f \<and> max_results bd' = max_results bd"
proof (cases "absorb_function bd f")
  case (Some p)
  with assms have "absorb_function bd f = Some (bd', r)" by (simp add: absorb_filter_def)
  from absorb_function_flag [OF this] show ?thesis by simp
next
  case nf: None
  show ?thesis
  proof (cases "absorb_operator bd f")
    case (Some p)
    with assms nf have "absorb_operator bd f = Some (bd', r)" by (simp add: absorb_filter_def)
    from absorb_operator_flag [OF this] show ?thesis by simp
  next
    case no: None
    show ?thesis
    proof (cases "absorb_comparison cv bd f")
      case (Inl e)
      with assms nf no show ?thesis by (simp add: absorb_filter_def)
    next
      case (Inr q)
      show ?thesis
      proof (cases q)
        case (Some p)
        with assms nf no Inr have "absorb_comparison cv bd f = Inr (Some (bd', r))"
          by (simp add: absorb_filter_def)
        from absorb_comparison_flag [OF this] show ?thesis .
      next
        case None
        with assms nf no Inr have r: "\<not> r" and bd: "bd' = bd" by (simp_all add: absorb_filter_def)
        have "\<not> is_site_predicate f"
        proof (cases f)
          case (BoundFunction name args)
          from absorb_function_None [OF nf this] show ?thesis .
        next
          case (BoundOperator t args)
          from absorb_operator_None [OF no this] show ?thesis .
        next
          case (BoundComparison t l r)
          from Inr None have "absorb_comparison cv bd f = Inr None" by simp
          from absorb_comparison_None [OF this BoundComparison] show ?thesis .
        qed simp_all
        with r bd show ?thesis by simp
      qed
    qed
  qed
qed

lemma absorb_loop_indices:
  "absorb_loop cv fs i bd rem = Inr (bd', rem') \<Longrightarrow>
     rem' = rem @ map (\<lambda>j. i + j) [j \<leftarrow> [0..<length fs]. is_site_predicate (fs ! j)]
     \<and> max_results bd' = max_results bd"
proof (induction fs arbitrary: i bd rem)
  case Nil
  then show ?case by simp
next
  case (Cons f fs)
  from Cons.prems obtain bd1 r where
      af: "absorb_filter cv bd f = Inr (bd1, r)"
    and rec: "absorb_loop cv fs (Suc i) bd1 (if r then rem @ [i] else rem) = Inr (bd', rem')"
    by (auto split: sum.splits)
  from absorb_filter_flag [OF af] have r: "r = is_site_predicate f" and m: "max_results bd1 = max_results bd"
    by simp_all
  from Cons.IH [OF rec] have
    ih: "rem' = (if r then rem @ [i] else rem)
           @ map (\<lambda>j. Suc i + j) [j \<leftarrow> [0..<length fs]. is_site_predicate (fs ! j)]"
    and m': "max_results bd' = max_results bd1" by simp_all
  have split: "[j \<leftarrow> [0..<length (f # fs)]. is_site_predicate ((f # fs) ! j)]
        = (if is_site_predicate f then [0] else [])
          @ map Suc [j \<leftarrow> [0..<length fs]. is_site_predicate (fs ! j)]"
    by (simp add: upt_conv_Cons map_Suc_upt [symmetric] filter_map o_def del: upt_Suc)
  show ?case unfolding split using ih r m m' by (simp add: o_def)
qed

lemma erase_prefix:
  "\<forall>i \<in> set is. i < length xs \<Longrightarrow> sorted_wrt (>) is \<Longrightarrow>
     foldl (\<lambda>fs i. erase_at i fs) (xs @ ys) is = foldl (\<lambda>fs i. erase_at i fs) xs is @ ys"
proof (induction "is" arbitrary: xs)
  case Nil
  then show ?case by simp
next
  case (Cons i "is")
  from Cons.prems have i: "i < length xs" and lt: "\<forall>j \<in> set is. j < i" and srt: "sorted_wrt (>) is"
    by auto
  from i have e: "erase_at i (xs @ ys) = erase_at i xs @ ys" by (simp add: erase_at_def)
  from i have len: "length (erase_at i xs) = length xs - 1" by (simp add: erase_at_def)
  from lt i len have "\<forall>j \<in> set is. j < length (erase_at i xs)" by auto
  from Cons.IH [OF this srt] e show ?case by simp
qed

lemma erase_removed:
  "foldl (\<lambda>fs i. erase_at i fs) xs (rev [j \<leftarrow> [0..<length xs]. P (xs ! j)]) = filter (\<lambda>x. \<not> P x) xs"
proof (induction xs rule: rev_induct)
  case Nil
  then show ?case by simp
next
  case (snoc x xs)
  let ?idx = "[j \<leftarrow> [0..<length xs]. P (xs ! j)]"
  have idx: "[j \<leftarrow> [0..<length (xs @ [x])]. P ((xs @ [x]) ! j)] = ?idx @ (if P x then [length xs] else [])"
    by (auto simp: nth_append intro: filter_cong)
  have bound: "\<forall>i \<in> set (rev ?idx). i < length xs" by auto
  have "sorted_wrt (<) ?idx" by (rule sorted_wrt_filter) (rule sorted_wrt_upt)
  then have srt: "sorted_wrt (>) (rev ?idx)" by (simp add: sorted_wrt_rev)
  show ?case
  proof (cases "P x")
    case True
    then have "foldl (\<lambda>fs i. erase_at i fs) (xs @ [x]) (rev (?idx @ [length xs]))
          = foldl (\<lambda>fs i. erase_at i fs) xs (rev ?idx)"
      by (simp add: erase_at_def)
    with True idx snoc.IH show ?thesis by simp
  next
    case False
    from erase_prefix [OF bound srt, of "[x]"] False idx snoc.IH show ?thesis by simp
  qed
qed


lemma date_bound_not_site_predicate: "is_date_bound f \<Longrightarrow> \<not> is_site_predicate f"
proof (induction f rule: is_date_bound.induct)
  case (1 t col v)
  then show ?case by (cases v) auto
qed simp_all

lemma Pushdown_residual:
  assumes "GoogleSearchPushdownComplexFilter cv bd fs = Inr (bd', residual)"
  shows "residual = filter (\<lambda>f. \<not> is_site_predicate f) fs \<and> max_results bd' = max_results bd"
proof -
  from assms obtain rem where
      loop: "absorb_loop cv fs 0 bd [] = Inr (bd', rem)"
    and res: "residual = foldl (\<lambda>fs i. erase_at i fs) fs (rev rem)"
    by (auto simp: GoogleSearchPushdownComplexFilter_def split: sum.splits)
  from absorb_loop_indices [OF loop]
  have rem: "rem = [j \<leftarrow> [0..<length fs]. is_site_predicate (fs ! j)]"
    and m: "max_results bd' = max_results bd" by simp_all
  from res rem erase_removed [of fs is_site_predicate] m show ?thesis by simp
qed



text \<open>
  C5: when the absorber returns, the residual list is the input list without the
  recognised site predicates, in the input order. A lower- or upper-bound comparison of a
  column named \<open>timestamp\<close> or \<open>date\<close> with a constant is not a site predicate, so it
  stays in the list, whether or not its bound was stored.
\<close>

theorem date_bounds_stay_in_residual:
  assumes "GoogleSearchPushdownComplexFilter cv bd fs = Inr (bd', residual)"
  shows "residual = filter (\<lambda>f. \<not> is_site_predicate f) fs
         \<and> subseq residual fs
         \<and> (\<forall>f \<in> set fs. is_date_bound f \<longrightarrow> f \<in> set residual)
         \<and> (\<forall>f \<in> set fs. is_site_predicate f \<longrightarrow> f \<notin> set residual)
         \<and> (\<forall>f \<in> set fs. f \<in> set residual \<or> is_site_predicate f)"
proof -
  from Pushdown_residual [OF assms]
  have r: "residual = filter (\<lambda>f. \<not> is_site_predicate f) fs" by simp
  moreover from r have "subseq residual fs" by simp
  moreover from r have "\<forall>f \<in> set fs. is_date_bound f \<longrightarrow> f \<in> set residual"
    using date_bound_not_site_predicate by auto
  moreover from r have "\<forall>f \<in> set fs. is_site_predicate f \<longrightarrow> f \<notin> set residual" by simp
  moreover from r have "\<forall>f \<in> set fs. f \<in> set residual \<or> is_site_predicate f" by auto
  ultimately show ?thesis by blast
qed

theorem date_bounds_stay_in_residual_witness:
  "GoogleSearchPushdownComplexFilter no_conversions example_bind
       [filter_site_suffix, filter_date_gt, filter_title_eq]
     = Inr (example_bind\<lparr>site_includes := [''.example.com''],
                          date_from := 1699000000000000, has_date_filter := True\<rparr>,
            [filter_date_gt, filter_title_eq])
   \<and> is_date_bound filter_date_gt \<and> is_site_predicate filter_site_suffix
   \<and> subseq [filter_date_gt, filter_title_eq] [filter_site_suffix, filter_date_gt, filter_title_eq]"
proof -
  have run: "GoogleSearchPushdownComplexFilter no_conversions example_bind
       [filter_site_suffix, filter_date_gt, filter_title_eq]
     = Inr (example_bind\<lparr>site_includes := [''.example.com''],
                          date_from := 1699000000000000, has_date_filter := True\<rparr>,
            [filter_date_gt, filter_title_eq])"
    by (simp add: GoogleSearchPushdownComplexFilter_def absorb_filter_def filter_site_suffix_def
          filter_date_gt_def filter_title_eq_def erase_at_def example_bind_def
          GoogleSearchBindData_default_def)
  have d: "is_date_bound filter_date_gt" and p: "is_site_predicate filter_site_suffix"
    by (simp_all add: filter_date_gt_def filter_site_suffix_def)
  from date_bounds_stay_in_residual [OF run]
  have s: "subseq [filter_date_gt, filter_title_eq] [filter_site_suffix, filter_date_gt, filter_title_eq]"
    by (elim conjE)
  from run d p s show ?thesis by (intro conjI)
qed

text \<open>
  C3: the planner hands \<open>site LIKE '%.example.com'\<close> over as \<open>suffix(site, '.example.com')\<close>.
  The absorber removes the predicate and appends the constant as it is, with the leading
  dot; nothing strips it (the helper \<open>ExtractLikePattern\<close> is never called, and on the
  full pattern it would only strip the \<open>%\<close>). The stored pattern is \<open>.example.com\<close>.
\<close>

theorem suffix_pattern_stored_with_dot:
  "GoogleSearchPushdownComplexFilter no_conversions example_bind [filter_site_suffix]
     = Inr (example_bind\<lparr>site_includes := [''.example.com'']\<rparr>, [])
   \<and> site_includes (example_bind\<lparr>site_includes := [''.example.com'']\<rparr>) \<noteq> [''example.com'']
   \<and> ExtractLikePattern ''%.example.com'' = (''.example.com'', False, True)
   \<and> absorb_filter cv bd (BoundFunction ''suffix'' [BoundColumnRef ''site'', BoundConstant (VarcharValue s)])
       = Inr (bd\<lparr>site_includes := site_includes bd @ [s]\<rparr>, True)"
  by (simp add: GoogleSearchPushdownComplexFilter_def absorb_filter_def filter_site_suffix_def
        erase_at_def example_bind_def GoogleSearchBindData_default_def ExtractLikePattern_def)


section \<open>Mode selection and cursor exhaustion\<close>

lemma page_next_start_neg:
  "doc_items doc = None \<or> doc_items doc = Some [] \<or> doc_next_start doc = None \<Longrightarrow> page_next_start doc < 0"
  by (auto simp: page_next_start_def split: option.splits)

lemma Parse_next_start:
  assumes "ParseGoogleSearchResponse rd b state bind_data = Inr (nxt, state2)"
  shows "\<exists>doc. rd b = Some doc \<and> doc_error doc = None \<and> nxt = page_next_start doc"
  using assms
  by (auto simp: ParseGoogleSearchResponse_def page_next_start_def
           split: option.splits sum.splits if_splits)

lemma fetch_page_next_start:
  assumes "fetch_page env bind_data k start sf u state = Inr (nxt, state2)"
  shows "\<exists>doc. received_doc env bind_data k start sf u = Some doc \<and> doc_error doc = None
               \<and> nxt = page_next_start doc"
  using assms unfolding fetch_page_def received_doc_def Let_def
  by (auto split: if_splits dest: Parse_next_start)












lemma advance_rules:
  "fetch_complete (advance_single state2 start nxt) \<longleftrightarrow> fetch_complete state2 \<or> nxt < 0 \<or> 100 \<le> start"
  "exhausted (advance_site site_state nxt) \<longleftrightarrow> exhausted site_state \<or> nxt < 0 \<or> 100 \<le> next_start site_state"
  by (auto simp: advance_single_def advance_site_def)

lemma int32_wrap_small: "- 2147483648 \<le> x \<Longrightarrow> x \<le> 2147483647 \<Longrightarrow> int32_wrap x = x"
  by (simp add: int32_wrap_def)

lemma make_result_example: "make_result example_item = Inr example_result"
  by (simp add: make_result_def example_item_def GetJsonString_def ExtractDomain_eq
        example_result_def Let_def)

lemma short_page_fetch:
  assumes "k < 10"
  shows "fetch_page env_short_pages example_bind k start [] False (pages_done k)
           = Inr (int k * 10 + 11, (pages_done k)\<lparr>results := replicate (Suc k) example_result\<rparr>)"
proof -
  from assms have cap: "length (results (pages_done k)) < max_results example_bind"
    by (simp add: pages_done_def example_bind_def GoogleSearchBindData_default_def)
  have push: "push_items [example_item] (results (pages_done k)) (max_results example_bind)
                = Inr (replicate (Suc k) example_result)"
    using cap by (simp add: make_result_example pages_done_def replicate_append_same)
  from assms have w: "int32_wrap (int k * 10 + 11) = int k * 10 + 11"
    by (intro int32_wrap_small) simp_all
  from assms push w show ?thesis
    by (simp add: fetch_page_def env_short_pages_def Fetch_def Fetch_loop.simps
          RetryConfig_default_def HttpResponse_default_def Let_def ParseGoogleSearchResponse_def)
qed

lemma short_page_step:
  assumes "k < 10"
  shows "single_body env_short_pages example_bind False k (pages_done k) = Inr (pages_done (Suc k))"
proof -
  from assms have "\<not> 100 \<le> next_start_single (pages_done k)"
    by (simp add: pages_done_def)
  with short_page_fetch [OF assms, of "next_start_single (pages_done k)"] show ?thesis
    by (simp add: single_body_def advance_single_def pages_done_def algebra_simps)
qed

lemma eleventh_request_fails:
  "fetch_page env_short_pages example_bind 10 start [] False state
     = Inl (InvalidInputException ''Google Search API: Invalid request - '')"
  by (simp add: fetch_page_def env_short_pages_def Fetch_def Fetch_loop.simps
        RetryConfig_default_def HttpResponse_default_def Let_def IsRetryable_def fetch_failure_def)

lemma short_pages_loop:
  assumes "k \<le> 10"
  shows "single_loop env_short_pages example_bind False k (pages_done k)
           = Inl (InvalidInputException ''Google Search API: Invalid request - '')"
  using assms
proof (induction "10 - k" arbitrary: k)
  case 0
  then have k: "k = 10" by simp
  have "length (results (pages_done 10)) < max_results example_bind \<and> \<not> fetch_complete (pages_done 10)"
    by (simp add: pages_done_def example_bind_def GoogleSearchBindData_default_def
          GoogleSearchGlobalState_default_def)
  then show ?case unfolding k
    by (subst single_loop.simps) (simp add: single_body_def eleventh_request_fails)
next
  case (Suc n)
  then have k: "k < 10" and n: "n = 10 - Suc k" and le: "Suc k \<le> 10" by simp_all
  from k have "length (results (pages_done k)) < max_results example_bind \<and> \<not> fetch_complete (pages_done k)"
    by (simp add: pages_done_def example_bind_def GoogleSearchBindData_default_def
          GoogleSearchGlobalState_default_def)
  with Suc.hyps(1) [OF n le] short_page_step [OF k] show ?case
    by (subst single_loop.simps) simp
qed

text \<open>
  C9 at work on a scan with short pages (row cap 100, no site filter). The tenth request
  is made at start index 91 and returns the continuation token 101. The test \<open>>= 100\<close> is
  applied to the start index of the request just made (91), so the cursor moves on to 101
  without being marked complete; only ten records are in, so the loop makes an eleventh
  request, at start index 101; it is answered with status 400 and the whole scan fails.
\<close>

theorem cursor_past_100_is_fetched_again:
  "pages_done 0 = GoogleSearchGlobalState_default
   \<and> next_start_single (pages_done 9) = 91
   \<and> single_body env_short_pages example_bind False 9 (pages_done 9) = Inr (pages_done 10)
   \<and> next_start_single (pages_done 10) = 101
   \<and> \<not> fetch_complete (pages_done 10)
   \<and> length (results (pages_done 10)) = 10
   \<and> single_body env_short_pages example_bind False 10 (pages_done 10)
       = Inl (InvalidInputException ''Google Search API: Invalid request - '')
   \<and> FetchGoogleSearchResults env_short_pages GoogleSearchGlobalState_default example_bind
       = Inl (InvalidInputException ''Google Search API: Invalid request - '')"
proof -
  have p0: "pages_done 0 = GoogleSearchGlobalState_default"
    by (simp add: pages_done_def GoogleSearchGlobalState_default_def)
  have s9: "single_body env_short_pages example_bind False 9 (pages_done 9) = Inr (pages_done 10)"
    using short_page_step [of 9] by simp
  have s10: "single_body env_short_pages example_bind False 10 (pages_done 10)
       = Inl (InvalidInputException ''Google Search API: Invalid request - '')"
    by (simp add: single_body_def eleventh_request_fails)
  have mode: "\<not> use_per_site_queries example_bind" "site_includes example_bind = []"
    by (simp_all add: use_per_site_queries_def example_bind_def GoogleSearchBindData_default_def)
  from short_pages_loop [of 0] p0 mode
  have run: "FetchGoogleSearchResults env_short_pages GoogleSearchGlobalState_default example_bind
       = Inl (InvalidInputException ''Google Search API: Invalid request - '')"
    by (simp add: FetchGoogleSearchResults_def Let_def)
  from p0 s9 s10 run show ?thesis
    by (simp add: pages_done_def GoogleSearchGlobalState_default_def)
qed

end
